theory Spec2Isabelle
  imports Main "HOL-Library.Word"
begin

unbundle bit_operations_syntax

section \<open>Go values used by app/main.go\<close>

text \<open>
  Bytes are 8-bit words, \<open>int16\<close> and \<open>int32\<close> are 16- and 32-bit words read in two's
  complement (\<open>sint\<close>, \<open><s\<close>), \<open>uint64\<close> is a 64-bit word read unsigned. A Go \<open>string\<close>
  is a sequence of bytes. Go's \<open>int\<close> is taken to be 64 bits wide (the amd64 and arm64
  targets): it is an \<open>int\<close> here, and every addition the source performs on it is wrapped
  by \<open>go_int\<close>; the conversion \<open>int(x)\<close> of a \<open>uint64\<close> is \<open>sint x\<close>.
\<close>

type_synonym byte = "8 word"
type_synonym int16 = "16 word"
type_synonym int32 = "32 word"
type_synonym uint64 = "64 word"

definition go_int :: "int \<Rightarrow> int" where
  "go_int x = sint (word_of_int x :: 64 word)"

text \<open>
  \<open>ErrUnexpectedEOF\<close> is the error value \<open>io.ErrUnexpectedEOF\<close>; \<open>PanicOutOfRange\<close> is the
  run-time panic of an index or slice expression out of range, which nothing in the
  program recovers.
\<close>

datatype fault = ErrUnexpectedEOF | PanicOutOfRange

text \<open>
  The slice expressions \<open>s[lo:]\<close> and \<open>s[lo:hi]\<close> on a slice whose capacity is its length
  (every buffer of the program is made by \<open>make\<close> with one size). \<open>None\<close> is the panic.
\<close>

definition slice_from :: "byte list \<Rightarrow> int \<Rightarrow> byte list option" where
  "slice_from s lo =
     (if 0 \<le> lo \<and> lo \<le> int (length s) then Some (drop (nat lo) s) else None)"

definition slice_between :: "byte list \<Rightarrow> int \<Rightarrow> int \<Rightarrow> byte list option" where
  "slice_between s lo hi =
     (if 0 \<le> lo \<and> lo \<le> hi \<and> hi \<le> int (length s)
      then Some (take (nat (hi - lo)) (drop (nat lo) s)) else None)"

subsection \<open>encoding/binary\<close>

text \<open>
  The functions of Go's standard package \<open>encoding/binary\<close> that the program calls,
  written after the package's own code. \<open>None\<close> is the index panic on a short slice.
\<close>

fun Uint16 :: "byte list \<Rightarrow> 16 word option" where
  "Uint16 (x0 # x1 # _) = Some (ucast x1 OR push_bit 8 (ucast x0))"
| "Uint16 _ = None"

fun Uint32 :: "byte list \<Rightarrow> 32 word option" where
  "Uint32 (x0 # x1 # x2 # x3 # _) =
     Some (ucast x3 OR push_bit 8 (ucast x2) OR push_bit 16 (ucast x1) OR push_bit 24 (ucast x0))"
| "Uint32 _ = None"

definition PutUint32 :: "byte list \<Rightarrow> 32 word \<Rightarrow> byte list option" where
  "PutUint32 s v =
     (if length s < 4 then None
      else Some ([ucast (drop_bit 24 v), ucast (drop_bit 16 v), ucast (drop_bit 8 v), ucast v]
                 @ drop 4 s))"

text \<open>
  \<open>binary.Uvarint\<close>: the loop over the bytes of the buffer with index \<open>i\<close>, accumulator
  \<open>x\<close> and shift \<open>s\<close>; \<open>MaxVarintLen64\<close> is 10. The second component is the number of
  bytes read, 0 when the buffer ends before the last byte, negative on overflow.
\<close>

fun Uvarint_loop :: "byte list \<Rightarrow> nat \<Rightarrow> 64 word \<Rightarrow> nat \<Rightarrow> 64 word \<times> int" where
  "Uvarint_loop [] i x s = (0, 0)"
| "Uvarint_loop (y # ys) i x s =
     (if i = 10 then (0, - (int i + 1))
      else if y < 0x80 then
        (if i = 9 \<and> y > 1 then (0, - (int i + 1))
         else (x OR push_bit s (ucast y), int i + 1))
      else Uvarint_loop ys (i + 1) (x OR push_bit s (ucast (y AND 0x7f))) (s + 7))"

definition Uvarint :: "byte list \<Rightarrow> 64 word \<times> int" where
  "Uvarint buf = Uvarint_loop buf 0 0 0"

section \<open>The cursor\<close>

record cursor =
  b :: "byte list"
  off :: int

text \<open>
  Every method takes the cursor and returns its result with the cursor as the call
  leaves it, also when it returns an error: \<open>Inl ErrUnexpectedEOF\<close> is a non-nil \<open>err\<close>,
  \<open>Inl PanicOutOfRange\<close> a panic.
\<close>

definition need :: "cursor \<Rightarrow> int \<Rightarrow> fault option" where
  "need c n =
     (if go_int (off c + n) > int (length (b c)) then Some ErrUnexpectedEOF else None)"

definition i16 :: "cursor \<Rightarrow> (fault + int16) \<times> cursor" where
  "i16 c =
     (case need c 2 of
        Some err \<Rightarrow> (Inl err, c)
      | None \<Rightarrow>
          (case slice_from (b c) (off c) of
             None \<Rightarrow> (Inl PanicOutOfRange, c)
           | Some s \<Rightarrow>
               (case Uint16 s of
                  None \<Rightarrow> (Inl PanicOutOfRange, c)
                | Some v \<Rightarrow> (Inr v, c\<lparr>off := go_int (off c + 2)\<rparr>))))"

definition i32 :: "cursor \<Rightarrow> (fault + int32) \<times> cursor" where
  "i32 c =
     (case need c 4 of
        Some err \<Rightarrow> (Inl err, c)
      | None \<Rightarrow>
          (case slice_from (b c) (off c) of
             None \<Rightarrow> (Inl PanicOutOfRange, c)
           | Some s \<Rightarrow>
               (case Uint32 s of
                  None \<Rightarrow> (Inl PanicOutOfRange, c)
                | Some v \<Rightarrow> (Inr v, c\<lparr>off := go_int (off c + 4)\<rparr>))))"

text \<open>Legacy STRING (nullable): int16 length; a negative length is null.\<close>

definition str16 :: "cursor \<Rightarrow> (fault + byte list) \<times> cursor" where
  "str16 c =
     (case i16 c of
        (Inl err, c1) \<Rightarrow> (Inl err, c1)
      | (Inr l, c1) \<Rightarrow>
          if l <s 0 then (Inr [], c1)
          else
            (case need c1 (sint l) of
               Some err \<Rightarrow> (Inl err, c1)
             | None \<Rightarrow>
                 (case slice_between (b c1) (off c1) (go_int (off c1 + sint l)) of
                    None \<Rightarrow> (Inl PanicOutOfRange, c1)
                  | Some s \<Rightarrow> (Inr s, c1\<lparr>off := go_int (off c1 + sint l)\<rparr>))))"

definition uvarint :: "cursor \<Rightarrow> (fault + uint64) \<times> cursor" where
  "uvarint c =
     (case slice_from (b c) (off c) of
        None \<Rightarrow> (Inl PanicOutOfRange, c)
      | Some s \<Rightarrow>
          (case Uvarint s of
             (v, n) \<Rightarrow>
               if n \<le> 0 then (Inl ErrUnexpectedEOF, c)
               else (Inr v, c\<lparr>off := go_int (off c + n)\<rparr>)))"

text \<open>Flexible COMPACT_NULLABLE_STRING: uvarint(len+1); 0 is null.\<close>

definition compactNullableString :: "cursor \<Rightarrow> (fault + byte list) \<times> cursor" where
  "compactNullableString c =
     (case uvarint c of
        (Inl err, c1) \<Rightarrow> (Inl err, c1)
      | (Inr n1, c1) \<Rightarrow>
          if n1 = 0 then (Inr [], c1)
          else
            (let n = sint (n1 - 1) in
             case need c1 n of
               Some err \<Rightarrow> (Inl err, c1)
             | None \<Rightarrow>
                 (case slice_between (b c1) (off c1) (go_int (off c1 + n)) of
                    None \<Rightarrow> (Inl PanicOutOfRange, c1)
                  | Some s \<Rightarrow> (Inr s, c1\<lparr>off := go_int (off c1 + n)\<rparr>))))"

text \<open>
  Flexible tagged fields: the body of the \<open>for\<close> loop of \<open>skipTagged\<close> (tag id, size,
  payload), then the loop over the counter \<open>i\<close>, then the method.
\<close>

definition skipTagged_entry :: "cursor \<Rightarrow> (fault + unit) \<times> cursor" where
  "skipTagged_entry c =
     (case uvarint c of
        (Inl err, c1) \<Rightarrow> (Inl err, c1)
      | (Inr _, c1) \<Rightarrow>
          (case uvarint c1 of
             (Inl err, c2) \<Rightarrow> (Inl err, c2)
           | (Inr sz, c2) \<Rightarrow>
               (case need c2 (sint sz) of
                  Some err \<Rightarrow> (Inl err, c2)
                | None \<Rightarrow> (Inr (), c2\<lparr>off := go_int (off c2 + sint sz)\<rparr>))))"

function skipTagged_loop :: "uint64 \<Rightarrow> uint64 \<Rightarrow> cursor \<Rightarrow> (fault + unit) \<times> cursor" where
  "skipTagged_loop i cnt c =
     (if i < cnt then
        (case skipTagged_entry c of
           (Inl err, c1) \<Rightarrow> (Inl err, c1)
         | (Inr _, c1) \<Rightarrow> skipTagged_loop (i + 1) cnt c1)
      else (Inr (), c))"
  by pat_completeness auto
termination
proof (relation "measure (\<lambda>(i, cnt, c). unat cnt - unat i)")
  show "wf (measure (\<lambda>(i :: uint64, cnt :: uint64, c :: cursor). unat cnt - unat i))"
    by simp
next
  fix i cnt :: uint64 and c z :: cursor
  assume "i < cnt"
  then have lt: "unat i < unat cnt"
    by (simp add: word_less_nat_alt)
  have "unat cnt < 2 ^ 64"
    using unsigned_less [of cnt, where 'a = nat] by simp
  with lt have "unat (i + 1) = unat i + 1"
    by (simp add: unat_word_ariths)
  with lt show "((i + 1, cnt, z), i, cnt, c) \<in> measure (\<lambda>(i, cnt, c). unat cnt - unat i)"
    by simp
qed

definition skipTagged :: "cursor \<Rightarrow> (fault + unit) \<times> cursor" where
  "skipTagged c =
     (case uvarint c of
        (Inl err, c1) \<Rightarrow> (Inl err, c1)
      | (Inr cnt, c1) \<Rightarrow> skipTagged_loop 0 cnt c1)"

section \<open>The request header\<close>

text \<open>
  \<open>parseHeader\<close> returns \<open>ok = false\<close> exactly where a cursor method returned a non-nil
  \<open>err\<close>; its only caller reads no other result in that case. So the result is
  \<open>Inl ErrUnexpectedEOF\<close> for \<open>ok = false\<close>, \<open>Inr (apiKey, apiVer, corrID, clientID)\<close> for
  \<open>ok = true\<close>, and \<open>Inl PanicOutOfRange\<close> when a method panicked. The assignment
  \<open>c.off = save\<close> is the update of \<open>off\<close> before the second attempt.
\<close>

definition parseHeader ::
  "cursor \<Rightarrow> (fault + int16 \<times> int16 \<times> int32 \<times> byte list) \<times> cursor" where
  "parseHeader c =
     (case i16 c of
        (Inl err, c1) \<Rightarrow> (Inl err, c1)
      | (Inr apiKey, c1) \<Rightarrow>
     (case i16 c1 of
        (Inl err, c2) \<Rightarrow> (Inl err, c2)
      | (Inr apiVer, c2) \<Rightarrow>
     (case i32 c2 of
        (Inl err, c3) \<Rightarrow> (Inl err, c3)
      | (Inr corrID, c3) \<Rightarrow>
     (let save = off c3 in
      case str16 c3 of
        (Inr clientID, c4) \<Rightarrow> (Inr (apiKey, apiVer, corrID, clientID), c4)
      | (Inl PanicOutOfRange, c4) \<Rightarrow> (Inl PanicOutOfRange, c4)
      | (Inl ErrUnexpectedEOF, c4) \<Rightarrow>
     (case compactNullableString (c4\<lparr>off := save\<rparr>) of
        (Inl err, c5) \<Rightarrow> (Inl err, c5)
      | (Inr clientID, c5) \<Rightarrow>
     (case skipTagged c5 of
        (Inl err, c6) \<Rightarrow> (Inl err, c6)
      | (Inr _, c6) \<Rightarrow> (Inr (apiKey, apiVer, corrID, clientID), c6)))))))"

text \<open>
  The second attempt of \<open>parseHeader\<close> on its own, from the restored cursor: the compact
  nullable string, then the tagged fields.
\<close>

definition flexible :: "cursor \<Rightarrow> (fault + byte list) \<times> cursor" where
  "flexible c =
     (case compactNullableString c of
        (Inl err, c5) \<Rightarrow> (Inl err, c5)
      | (Inr clientID, c5) \<Rightarrow>
          (case skipTagged c5 of
             (Inl err, c6) \<Rightarrow> (Inl err, c6)
           | (Inr _, c6) \<Rightarrow> (Inr clientID, c6)))"

section \<open>The response\<close>

definition apiKeyApiVersions :: int16 where "apiKeyApiVersions = 18"
definition maxSupportedAPIVer :: int16 where "maxSupportedAPIVer = 4"
definition errNone :: int16 where "errNone = 0"
definition errUnsupportedVer :: int16 where "errUnsupportedVer = 35"

text \<open>Step 4 of \<open>handleConn\<close>: the error code decided from the header.\<close>

definition decideErrCode :: "int16 \<Rightarrow> int16 \<Rightarrow> int16" where
  "decideErrCode apiKey apiVer =
     (if apiKey = apiKeyApiVersions \<and> (maxSupportedAPIVer <s apiVer \<or> apiVer <s 0)
      then errUnsupportedVer else errNone)"

text \<open>
  \<open>binary.BigEndian.PutUint32(resp[lo:hi], v)\<close> writes through the slice into \<open>resp\<close>;
  \<open>copy(resp[lo:], src)\<close> copies as many bytes as fit. \<open>None\<close> is a panic.
\<close>

definition PutUint32_at :: "byte list \<Rightarrow> int \<Rightarrow> int \<Rightarrow> 32 word \<Rightarrow> byte list option" where
  "PutUint32_at resp lo hi v =
     (case slice_between resp lo hi of
        None \<Rightarrow> None
      | Some w \<Rightarrow>
          (case PutUint32 w v of
             None \<Rightarrow> None
           | Some w' \<Rightarrow> Some (take (nat lo) resp @ w' @ drop (nat hi) resp)))"

definition copy_at :: "byte list \<Rightarrow> int \<Rightarrow> byte list \<Rightarrow> byte list option" where
  "copy_at resp lo src =
     (case slice_from resp lo of
        None \<Rightarrow> None
      | Some dst \<Rightarrow>
          Some (take (nat lo) resp @ take (length dst) src @ drop (length src) dst))"

definition buildApiVersionsResponse :: "int32 \<Rightarrow> int16 \<Rightarrow> byte list option" where
  "buildApiVersionsResponse corrID errCode =
     (let body = [];
          body = body @ [ucast (signed_drop_bit 8 errCode), ucast errCode];
          body = body @ [0x02];
          body = body @ [0x00, 0x12];
          body = body @ [0x00, 0x00];
          body = body @ [0x00, 0x04];
          body = body @ [0x00];
          tmp = replicate 4 0
      in case PutUint32 tmp 0 of
           None \<Rightarrow> None
         | Some tmp \<Rightarrow>
     (let body = body @ tmp;
          body = body @ [0x00];
          resp = replicate (4 + 4 + length body) 0
      in case PutUint32_at resp 0 4 (of_nat (4 + length body)) of
           None \<Rightarrow> None
         | Some resp \<Rightarrow>
     (case PutUint32_at resp 4 8 corrID of
           None \<Rightarrow> None
         | Some resp \<Rightarrow> copy_at resp 8 body)))"

section \<open>The connection\<close>

text \<open>
  A connection is what the handler can observe of it: \<open>rd\<close>, the bytes the peer sends
  before it closes its side; \<open>wr\<close>, the bytes written to it so far; \<open>made\<close>, the sizes of
  the payload buffers allocated so far; \<open>broken\<close>, whether a write returns an error;
  \<open>closed\<close>, set by the deferred \<open>conn.Close()\<close>. Console output is not part of the model,
  and a read never blocks for ever or fails other than by the end of the stream.
\<close>

record conn =
  rd :: "byte list"
  wr :: "byte list"
  made :: "nat list"
  broken :: bool
  closed :: bool

datatype io_error = EOF | UnexpectedEOF | WriteError

text \<open>\<open>io.ReadFull(conn, buf)\<close> for a buffer of \<open>n\<close> bytes.\<close>

definition ReadFull :: "conn \<Rightarrow> nat \<Rightarrow> (io_error + byte list) \<times> conn" where
  "ReadFull s n =
     (if n \<le> length (rd s) then (Inr (take n (rd s)), s\<lparr>rd := drop n (rd s)\<rparr>)
      else if rd s = [] then (Inl EOF, s)
      else (Inl UnexpectedEOF, s\<lparr>rd := []\<rparr>))"

definition Write :: "conn \<Rightarrow> byte list \<Rightarrow> io_error option \<times> conn" where
  "Write s bs = (if broken s then (Some WriteError, s) else (None, s\<lparr>wr := wr s @ bs\<rparr>))"

text \<open>
  One turn of the \<open>for\<close> loop of \<open>handleConn\<close>: \<open>Next\<close> when the loop goes on to the next
  request, \<open>Return\<close> at a \<open>return\<close>, \<open>Crash\<close> at a panic.
\<close>

datatype turn = Next | Return | Crash

definition handleFrame :: "conn \<Rightarrow> turn \<times> conn" where
  "handleFrame s =
     (case ReadFull s 4 of
        (Inl err, s1) \<Rightarrow> (Return, s1)
      | (Inr lenBuf, s1) \<Rightarrow>
     (case Uint32 lenBuf of
        None \<Rightarrow> (Crash, s1)
      | Some frameSize \<Rightarrow>
          if frameSize <s 0 then (Return, s1)
          else if 10 * 1024 * 1024 <s frameSize then (Return, s1)
          else
     (let s2 = s1\<lparr>made := made s1 @ [nat (sint frameSize)]\<rparr> in
      case ReadFull s2 (nat (sint frameSize)) of
        (Inl err, s3) \<Rightarrow> (Return, s3)
      | (Inr payload, s3) \<Rightarrow>
     (case parseHeader \<lparr>b = payload, off = 0\<rparr> of
        (Inl ErrUnexpectedEOF, c) \<Rightarrow> (Return, s3)
      | (Inl PanicOutOfRange, c) \<Rightarrow> (Crash, s3)
      | (Inr (apiKey, apiVer, corrID, clientID), c) \<Rightarrow>
     (let resp = buildApiVersionsResponse corrID (decideErrCode apiKey apiVer) in
      case resp of
        None \<Rightarrow> (Crash, s3)
      | Some resp \<Rightarrow>
          (case Write s3 resp of
             (Some err, s4) \<Rightarrow> (Return, s4)
           | (None, s4) \<Rightarrow> (Next, s4)))))))"

text \<open>
  \<open>handleConn\<close>: the loop, and the deferred \<open>conn.Close()\<close>, which also runs when the
  goroutine panics. The result says whether the handler returned or the process
  crashed.
\<close>

function handleLoop :: "conn \<Rightarrow> turn \<times> conn" where
  "handleLoop s =
     (case handleFrame s of
        (Next, s') \<Rightarrow> handleLoop s'
      | (Return, s') \<Rightarrow> (Return, s')
      | (Crash, s') \<Rightarrow> (Crash, s'))"
  by pat_completeness auto
termination
proof (relation "measure (\<lambda>s. length (rd s))")
  show "wf (measure (\<lambda>s :: conn. length (rd s)))"
    by simp
next
  fix s s' :: conn and t :: turn
  assume "(t, s') = handleFrame s" and "t = Next"
  then have nxt: "handleFrame s = (Next, s')"
    by simp
  have "length (rd s') + 4 \<le> length (rd s)"
    using nxt
    by (auto simp: handleFrame_def ReadFull_def Write_def Let_def
             split: if_splits option.splits sum.splits prod.splits fault.splits)
  then show "(s', s) \<in> measure (\<lambda>s. length (rd s))"
    by simp
qed

definition handleConn :: "conn \<Rightarrow> turn \<times> conn" where
  "handleConn s = (case handleLoop s of (t, s') \<Rightarrow> (t, s'\<lparr>closed := True\<rparr>))"

section \<open>The layout of the response as specified\<close>

text \<open>
  The response frame as the specification lays it out, for comparison with
  \<open>buildApiVersionsResponse\<close>: big-endian fields, most significant byte first.
\<close>

definition spec_be16 :: "16 word \<Rightarrow> byte list" where
  "spec_be16 v = [ucast (drop_bit 8 v), ucast v]"

definition spec_be32 :: "32 word \<Rightarrow> byte list" where
  "spec_be32 v = [ucast (drop_bit 24 v), ucast (drop_bit 16 v), ucast (drop_bit 8 v), ucast v]"

definition spec_entry :: "byte list" where
  "spec_entry = spec_be16 18 @ spec_be16 0 @ spec_be16 4 @ [0x00]"

definition spec_body :: "int16 \<Rightarrow> byte list" where
  "spec_body errCode = spec_be16 errCode @ [0x02] @ spec_entry @ spec_be32 0 @ [0x00]"

definition spec_frame :: "int32 \<Rightarrow> int16 \<Rightarrow> byte list" where
  "spec_frame corrID errCode =
     spec_be32 (of_nat (4 + length (spec_body errCode))) @ spec_be32 corrID @ spec_body errCode"

text \<open>
  Modelled from the spec: the encoder of the unsigned variable-length integer is not in
  the program, which only decodes. It is the standard base-128 encoding, least
  significant group of 7 bits first, the high bit of a byte set when another byte
  follows. A flexible client id \<open>s\<close> is sent as the encoding of its length plus one,
  then its bytes.
\<close>

function spec_uvarint :: "uint64 \<Rightarrow> byte list" where
  "spec_uvarint x =
     (if x < 0x80 then [ucast x] else (ucast x OR 0x80) # spec_uvarint (drop_bit 7 x))"
  by pat_completeness auto
termination
proof (relation "measure unat")
  show "wf (measure (unat :: uint64 \<Rightarrow> nat))"
    by simp
next
  fix x :: uint64
  assume "\<not> x < 0x80"
  then have "128 \<le> unat x"
    by (simp add: not_less word_le_nat_alt)
  then have "unat x div 128 < unat x"
    by simp
  then show "(drop_bit 7 x, x) \<in> measure unat"
    by (simp add: drop_bit_eq_div unat_div)
qed

definition spec_compact_string :: "byte list \<Rightarrow> byte list" where
  "spec_compact_string s = spec_uvarint (of_nat (length s + 1)) @ s"

section \<open>The response encoder\<close>

lemma hi_byte: "(ucast (signed_drop_bit 8 (e :: 16 word)) :: 8 word) = ucast (drop_bit 8 e)"
  by (rule bit_word_eqI) (auto simp: bit_simps)

lemma replicate_4: "replicate 4 (0::byte) = [0, 0, 0, 0]"
  by (simp add: numeral_eq_Suc)

lemma replicate_23:
  "replicate 23 (0::byte) = [0, 0, 0, 0, 0, 0, 0, 0, 0, 0, 0, 0, 0, 0, 0, 0, 0, 0, 0, 0, 0, 0, 0]"
  by (simp add: numeral_eq_Suc)

lemma build_bytes:
  "buildApiVersionsResponse corrID errCode =
     Some ([0, 0, 0, 19,
            ucast (drop_bit 24 corrID), ucast (drop_bit 16 corrID), ucast (drop_bit 8 corrID),
            ucast corrID,
            ucast (drop_bit 8 errCode), ucast errCode,
            2, 0, 18, 0, 0, 0, 4, 0, 0, 0, 0, 0, 0])"
  by (simp add: buildApiVersionsResponse_def PutUint32_def PutUint32_at_def copy_at_def
        slice_between_def slice_from_def Let_def hi_byte replicate_4 replicate_23)

lemma spec_frame_bytes:
  "spec_frame corrID errCode =
     [0, 0, 0, 19,
      ucast (drop_bit 24 corrID), ucast (drop_bit 16 corrID), ucast (drop_bit 8 corrID),
      ucast corrID,
      ucast (drop_bit 8 errCode), ucast errCode,
      2, 0, 18, 0, 0, 0, 4, 0, 0, 0, 0, 0, 0]"
  by (simp add: spec_frame_def spec_body_def spec_entry_def spec_be32_def spec_be16_def)

text \<open>
  C3. For every correlation id and error code the encoder returns (it never panics), and
  what it returns is the specified layout: the 4-byte big-endian frame length, which is 4
  plus the length of the body, the 4-byte big-endian correlation id, and the body made of
  the 2-byte error code, the byte 0x02, the 7-byte entry (api key 18, min version 0, max
  version 4, one 0x00 tagged-field count), 4 zero bytes of throttle time and a last 0x00.
\<close>

theorem C3_encoder_layout:
  "buildApiVersionsResponse corrID errCode = Some (spec_frame corrID errCode)
   \<and> spec_frame corrID errCode =
       spec_be32 (of_nat (4 + length (spec_body errCode))) @ spec_be32 corrID @ spec_body errCode
   \<and> spec_body errCode =
       spec_be16 errCode @ [0x02] @ (spec_be16 18 @ spec_be16 0 @ spec_be16 4 @ [0x00])
         @ [0x00, 0x00, 0x00, 0x00] @ [0x00]
   \<and> length (spec_body errCode) = 15"
proof (intro conjI)
  show "buildApiVersionsResponse corrID errCode = Some (spec_frame corrID errCode)"
    by (simp only: build_bytes spec_frame_bytes)
  show "spec_frame corrID errCode =
       spec_be32 (of_nat (4 + length (spec_body errCode))) @ spec_be32 corrID @ spec_body errCode"
    by (rule spec_frame_def)
  show "spec_body errCode =
       spec_be16 errCode @ [0x02] @ (spec_be16 18 @ spec_be16 0 @ spec_be16 4 @ [0x00])
         @ [0x00, 0x00, 0x00, 0x00] @ [0x00]"
    by (simp add: spec_body_def spec_entry_def spec_be32_def)
  show "length (spec_body errCode) = 15"
    by (simp add: spec_body_def spec_entry_def spec_be32_def spec_be16_def)
qed

section \<open>Reading the response back\<close>

lemma go_int_id: "- (2 ^ 63) \<le> x \<Longrightarrow> x < 2 ^ 63 \<Longrightarrow> go_int x = x"
  unfolding go_int_def
  by (simp add: signed_of_int signed_take_bit_int_eq_self)

lemma be16_decode:
  "(ucast (ucast (v :: 16 word) :: byte) OR push_bit 8 (ucast (ucast (drop_bit 8 v) :: byte))) = v"
  by (rule bit_word_eqI) (auto simp: bit_simps)

lemma be32_decode:
  "(ucast (ucast (v :: 32 word) :: byte) OR push_bit 8 (ucast (ucast (drop_bit 8 v) :: byte))
     OR push_bit 16 (ucast (ucast (drop_bit 16 v) :: byte))
     OR push_bit 24 (ucast (ucast (drop_bit 24 v) :: byte))) = v"
  (is "?l = v")
proof (rule bit_word_eqI)
  fix n assume "n < LENGTH(32)"
  then have "n < 32" by simp
  then consider "n < 8" | "8 \<le> n" "n < 16" | "16 \<le> n" "n < 24" | "24 \<le> n" "n < 32"
    by linarith
  then show "bit ?l n = bit v n"
    by cases (auto simp: bit_simps)
qed

text \<open>The specified big-endian fields are the ones Go's \<open>binary.BigEndian\<close> reads back.\<close>

lemma spec_be16_read: "Uint16 (spec_be16 v @ rest) = Some v"
  by (simp add: spec_be16_def be16_decode)

lemma spec_be32_read: "Uint32 (spec_be32 v @ rest) = Some v"
  by (simp add: spec_be32_def be32_decode)

text \<open>The cursor of the program run over the bytes of a response, field by field.\<close>

lemma reparse:
  fixes corrID :: int32 and errCode :: int16
  defines "r \<equiv> [0, 0, 0, 19,
            ucast (drop_bit 24 corrID), ucast (drop_bit 16 corrID), ucast (drop_bit 8 corrID),
            ucast corrID,
            ucast (drop_bit 8 errCode), ucast errCode,
            2, 0, 18, 0, 0, 0, 4, 0, 0, 0, 0, 0, 0]"
  shows "i32 \<lparr>b = r, off = 0\<rparr> = (Inr 19, \<lparr>b = r, off = 4\<rparr>)"
    and "i32 \<lparr>b = r, off = 4\<rparr> = (Inr corrID, \<lparr>b = r, off = 8\<rparr>)"
    and "i16 \<lparr>b = r, off = 8\<rparr> = (Inr errCode, \<lparr>b = r, off = 10\<rparr>)"
    and "uvarint \<lparr>b = r, off = 10\<rparr> = (Inr 2, \<lparr>b = r, off = 11\<rparr>)"
    and "i16 \<lparr>b = r, off = 11\<rparr> = (Inr 18, \<lparr>b = r, off = 13\<rparr>)"
    and "i16 \<lparr>b = r, off = 13\<rparr> = (Inr 0, \<lparr>b = r, off = 15\<rparr>)"
    and "i16 \<lparr>b = r, off = 15\<rparr> = (Inr 4, \<lparr>b = r, off = 17\<rparr>)"
    and "skipTagged \<lparr>b = r, off = 17\<rparr> = (Inr (), \<lparr>b = r, off = 18\<rparr>)"
    and "i32 \<lparr>b = r, off = 18\<rparr> = (Inr 0, \<lparr>b = r, off = 22\<rparr>)"
    and "skipTagged \<lparr>b = r, off = 22\<rparr> = (Inr (), \<lparr>b = r, off = 23\<rparr>)"
  unfolding r_def
  by (simp_all add: i32_def i16_def uvarint_def skipTagged_def need_def slice_from_def go_int_id
      Uvarint_def be32_decode be16_decode)

text \<open>
  C4. For every correlation id and error code, the bytes the encoder produces read back
  with the program's own cursor as follows: the first 4 bytes are the big-endian count of
  the bytes that follow them, the next 4 the correlation id, the next 2 the error code;
  then come the compact array length 2 (one entry), the entry with api key 18, min
  version 0, max version 4 and an empty tagged-field block, the throttle time 0 and an
  empty tagged-field block, after which the cursor stands at the end of the frame.
\<close>

theorem C4_roundtrip:
  "\<exists>r. buildApiVersionsResponse corrID errCode = Some r
     \<and> i32 \<lparr>b = r, off = 0\<rparr> = (Inr (of_nat (length r - 4)), \<lparr>b = r, off = 4\<rparr>)
     \<and> i32 \<lparr>b = r, off = 4\<rparr> = (Inr corrID, \<lparr>b = r, off = 8\<rparr>)
     \<and> i16 \<lparr>b = r, off = 8\<rparr> = (Inr errCode, \<lparr>b = r, off = 10\<rparr>)
     \<and> uvarint \<lparr>b = r, off = 10\<rparr> = (Inr 2, \<lparr>b = r, off = 11\<rparr>)
     \<and> i16 \<lparr>b = r, off = 11\<rparr> = (Inr 18, \<lparr>b = r, off = 13\<rparr>)
     \<and> i16 \<lparr>b = r, off = 13\<rparr> = (Inr 0, \<lparr>b = r, off = 15\<rparr>)
     \<and> i16 \<lparr>b = r, off = 15\<rparr> = (Inr 4, \<lparr>b = r, off = 17\<rparr>)
     \<and> skipTagged \<lparr>b = r, off = 17\<rparr> = (Inr (), \<lparr>b = r, off = 18\<rparr>)
     \<and> i32 \<lparr>b = r, off = 18\<rparr> = (Inr 0, \<lparr>b = r, off = 22\<rparr>)
     \<and> skipTagged \<lparr>b = r, off = 22\<rparr> = (Inr (), \<lparr>b = r, off = int (length r)\<rparr>)"
proof (intro exI conjI)
  let ?r = "[0, 0, 0, 19,
            ucast (drop_bit 24 corrID), ucast (drop_bit 16 corrID), ucast (drop_bit 8 corrID),
            ucast corrID,
            ucast (drop_bit 8 errCode), ucast errCode,
            2, 0, 18, 0, 0, 0, 4, 0, 0, 0, 0, 0, 0] :: byte list"
  show "buildApiVersionsResponse corrID errCode = Some ?r"
    by (rule build_bytes)
  show "i32 \<lparr>b = ?r, off = 0\<rparr> = (Inr (of_nat (length ?r - 4)), \<lparr>b = ?r, off = 4\<rparr>)"
    by (simp add: reparse(1))
  show "skipTagged \<lparr>b = ?r, off = 22\<rparr> = (Inr (), \<lparr>b = ?r, off = int (length ?r)\<rparr>)"
    by (simp add: reparse(10))
qed (rule reparse)+

section \<open>The version policy\<close>

lemma sint_eq_18: "(sint (k :: 16 word) = 18) = (k = 18)"
proof
  assume "sint k = 18"
  then have "(word_of_int (sint k) :: 16 word) = word_of_int 18"
    by simp
  then show "k = 18"
    by simp
next
  assume "k = 18"
  then show "sint k = 18"
    by simp
qed

text \<open>
  C2. For every apiKey and apiVersion, read as signed 16-bit integers, the decided error
  code is UNSUPPORTED_VERSION (35) if and only if apiKey is 18 and apiVersion is negative
  or greater than 4; in every other case, whatever the apiKey, it is NONE (0).
\<close>

theorem C2_version_policy:
  "(decideErrCode apiKey apiVer = 35) = (sint apiKey = 18 \<and> (sint apiVer < 0 \<or> 4 < sint apiVer))
   \<and> decideErrCode apiKey apiVer =
       (if sint apiKey = 18 \<and> (sint apiVer < 0 \<or> 4 < sint apiVer) then 35 else 0)"
  by (auto simp: decideErrCode_def apiKeyApiVersions_def maxSupportedAPIVer_def errNone_def
        errUnsupportedVer_def word_sless_alt sint_eq_18)

section \<open>The header decoder\<close>

lemma go_int_small [simp]:
  "go_int 2 = 2" "go_int 4 = 4" "go_int 8 = 8" "go_int 10 = 10"
  by (simp_all add: go_int_id)

lemma sint16_bounds: "- 32768 \<le> sint (l :: 16 word)" "sint (l :: 16 word) < 32768"
  using sint_ge [of l] sint_lt [of l] by simp_all

lemma go_int_10_plus: "go_int (10 + sint (l :: 16 word)) = 10 + sint l"
  using sint16_bounds [of l] by (intro go_int_id) simp_all

lemma split8:
  assumes "8 \<le> length (p :: 'a list)"
  obtains x0 x1 x2 x3 x4 x5 x6 x7 rest where "p = x0 # x1 # x2 # x3 # x4 # x5 # x6 # x7 # rest"
proof -
  have "Suc (Suc (Suc (Suc (Suc (Suc (Suc (Suc 0))))))) \<le> length p"
    using assms by simp
  then show ?thesis
    using that by (auto simp: Suc_le_length_iff)
qed

lemma parseHeader_prefix:
  "parseHeader \<lparr>b = x0 # x1 # x2 # x3 # x4 # x5 # x6 # x7 # rest, off = 0\<rparr> =
     (case str16 \<lparr>b = x0 # x1 # x2 # x3 # x4 # x5 # x6 # x7 # rest, off = 8\<rparr> of
        (Inr clientID, c4) \<Rightarrow>
          (Inr (ucast x1 OR push_bit 8 (ucast x0), ucast x3 OR push_bit 8 (ucast x2),
                ucast x7 OR push_bit 8 (ucast x6) OR push_bit 16 (ucast x5) OR push_bit 24 (ucast x4),
                clientID), c4)
      | (Inl PanicOutOfRange, c4) \<Rightarrow> (Inl PanicOutOfRange, c4)
      | (Inl ErrUnexpectedEOF, c4) \<Rightarrow>
          (case flexible (c4\<lparr>off := 8\<rparr>) of
             (Inl err, c') \<Rightarrow> (Inl err, c')
           | (Inr clientID, c') \<Rightarrow>
               (Inr (ucast x1 OR push_bit 8 (ucast x0), ucast x3 OR push_bit 8 (ucast x2),
                ucast x7 OR push_bit 8 (ucast x6) OR push_bit 16 (ucast x5) OR push_bit 24 (ucast x4),
                clientID), c')))"
  by (simp add: parseHeader_def i16_def i32_def need_def slice_from_def flexible_def
      split: prod.splits sum.splits fault.splits)

lemma str16_at8:
  "str16 \<lparr>b = x0 # x1 # x2 # x3 # x4 # x5 # x6 # x7 # rest, off = 8\<rparr> =
     (case rest of
        y0 # y1 # rest' \<Rightarrow>
          (let l = (ucast y1 OR push_bit 8 (ucast y0) :: 16 word) in
           if l <s 0 then (Inr [], \<lparr>b = x0 # x1 # x2 # x3 # x4 # x5 # x6 # x7 # rest, off = 10\<rparr>)
           else if int (length rest') < sint l
             then (Inl ErrUnexpectedEOF, \<lparr>b = x0 # x1 # x2 # x3 # x4 # x5 # x6 # x7 # rest, off = 10\<rparr>)
           else (Inr (take (nat (sint l)) rest'),
                 \<lparr>b = x0 # x1 # x2 # x3 # x4 # x5 # x6 # x7 # rest, off = 10 + sint l\<rparr>))
      | _ \<Rightarrow> (Inl ErrUnexpectedEOF, \<lparr>b = x0 # x1 # x2 # x3 # x4 # x5 # x6 # x7 # rest, off = 8\<rparr>))"
  by (auto simp: str16_def i16_def need_def slice_from_def slice_between_def go_int_10_plus Let_def word_sless_alt
      split: list.splits)

lemma str16_at8_Inr:
  assumes "8 \<le> length p" and "str16 \<lparr>b = p, off = 8\<rparr> = (Inr clientID, c)"
  shows "c = \<lparr>b = p, off = 10 + int (length clientID)\<rparr>"
proof -
  from assms(1) obtain x0 x1 x2 x3 x4 x5 x6 x7 rest
    where p: "p = x0 # x1 # x2 # x3 # x4 # x5 # x6 # x7 # rest"
    by (rule split8)
  show ?thesis
    using assms(2) unfolding p str16_at8
    by (auto simp: Let_def word_sless_alt split: list.splits if_splits)
qed

lemma str16_at8_Inl:
  assumes "8 \<le> length p" and "str16 \<lparr>b = p, off = 8\<rparr> = (Inl e, c)"
  shows "e = ErrUnexpectedEOF \<and> b c = p"
proof -
  from assms(1) obtain x0 x1 x2 x3 x4 x5 x6 x7 rest
    where p: "p = x0 # x1 # x2 # x3 # x4 # x5 # x6 # x7 # rest"
    by (rule split8)
  show ?thesis
    using assms(2) unfolding p str16_at8
    by (auto simp: Let_def split: list.splits if_splits)
qed

lemma fixed_fields:
  assumes "8 \<le> length p" "Uint16 p = Some apiKey" "Uint16 (drop 2 p) = Some apiVer"
    "Uint32 (drop 4 p) = Some corrID"
  shows "i16 \<lparr>b = p, off = 0\<rparr> = (Inr apiKey, \<lparr>b = p, off = 2\<rparr>)"
    and "i16 \<lparr>b = p, off = 2\<rparr> = (Inr apiVer, \<lparr>b = p, off = 4\<rparr>)"
    and "i32 \<lparr>b = p, off = 4\<rparr> = (Inr corrID, \<lparr>b = p, off = 8\<rparr>)"
    and "parseHeader \<lparr>b = p, off = 0\<rparr> =
     (case str16 \<lparr>b = p, off = 8\<rparr> of
        (Inr clientID, c4) \<Rightarrow> (Inr (apiKey, apiVer, corrID, clientID), c4)
      | (Inl PanicOutOfRange, c4) \<Rightarrow> (Inl PanicOutOfRange, c4)
      | (Inl ErrUnexpectedEOF, c4) \<Rightarrow>
          (case flexible (c4\<lparr>off := 8\<rparr>) of
             (Inl err, c') \<Rightarrow> (Inl err, c')
           | (Inr clientID, c') \<Rightarrow> (Inr (apiKey, apiVer, corrID, clientID), c')))"
proof -
  from assms(1) obtain x0 x1 x2 x3 x4 x5 x6 x7 rest
    where p: "p = x0 # x1 # x2 # x3 # x4 # x5 # x6 # x7 # rest"
    by (rule split8)
  from assms(2-4) have v: "apiKey = ucast x1 OR push_bit 8 (ucast x0)"
    "apiVer = ucast x3 OR push_bit 8 (ucast x2)"
    "corrID = ucast x7 OR push_bit 8 (ucast x6) OR push_bit 16 (ucast x5) OR push_bit 24 (ucast x4)"
    by (simp_all add: p)
  show "i16 \<lparr>b = p, off = 0\<rparr> = (Inr apiKey, \<lparr>b = p, off = 2\<rparr>)"
    and "i16 \<lparr>b = p, off = 2\<rparr> = (Inr apiVer, \<lparr>b = p, off = 4\<rparr>)"
    and "i32 \<lparr>b = p, off = 4\<rparr> = (Inr corrID, \<lparr>b = p, off = 8\<rparr>)"
    by (simp_all add: p v i16_def i32_def need_def slice_from_def)
  show "parseHeader \<lparr>b = p, off = 0\<rparr> =
     (case str16 \<lparr>b = p, off = 8\<rparr> of
        (Inr clientID, c4) \<Rightarrow> (Inr (apiKey, apiVer, corrID, clientID), c4)
      | (Inl PanicOutOfRange, c4) \<Rightarrow> (Inl PanicOutOfRange, c4)
      | (Inl ErrUnexpectedEOF, c4) \<Rightarrow>
          (case flexible (c4\<lparr>off := 8\<rparr>) of
             (Inl err, c') \<Rightarrow> (Inl err, c')
           | (Inr clientID, c') \<Rightarrow> (Inr (apiKey, apiVer, corrID, clientID), c')))"
    unfolding p v by (rule parseHeader_prefix)
qed

text \<open>
  C5. Over any payload that holds the 8 fixed bytes, header decoding reads apiKey (int16),
  apiVersion (int16) and correlationId (int32) first, which leaves the cursor at position
  8, the saved position. If the legacy read of the client id from there succeeds (also
  with the empty string of a negative length), the header is returned at once with that
  client id, and the cursor stands right behind the legacy string: nothing after it, so no
  tagged-field block, has been read. Only when the legacy read fails, which it can only
  do with the truncation error, is the result the one of the second attempt run from
  position 8 over the same bytes: the compact nullable string, then the tagged fields.
\<close>

theorem C5_header_decoding:
  assumes "8 \<le> length p" and "Uint16 p = Some apiKey" and "Uint16 (drop 2 p) = Some apiVer"
    and "Uint32 (drop 4 p) = Some corrID"
  shows "i16 \<lparr>b = p, off = 0\<rparr> = (Inr apiKey, \<lparr>b = p, off = 2\<rparr>)
     \<and> i16 \<lparr>b = p, off = 2\<rparr> = (Inr apiVer, \<lparr>b = p, off = 4\<rparr>)
     \<and> i32 \<lparr>b = p, off = 4\<rparr> = (Inr corrID, \<lparr>b = p, off = 8\<rparr>)
     \<and> (\<forall>clientID c. str16 \<lparr>b = p, off = 8\<rparr> = (Inr clientID, c) \<longrightarrow>
            parseHeader \<lparr>b = p, off = 0\<rparr> = (Inr (apiKey, apiVer, corrID, clientID), c)
            \<and> c = \<lparr>b = p, off = 10 + int (length clientID)\<rparr>)
     \<and> (\<forall>e c. str16 \<lparr>b = p, off = 8\<rparr> = (Inl e, c) \<longrightarrow>
            e = ErrUnexpectedEOF
            \<and> parseHeader \<lparr>b = p, off = 0\<rparr> =
                (case flexible \<lparr>b = p, off = 8\<rparr> of
                   (Inl err, c') \<Rightarrow> (Inl err, c')
                 | (Inr clientID, c') \<Rightarrow> (Inr (apiKey, apiVer, corrID, clientID), c')))"
proof (intro conjI allI impI)
  note ff = fixed_fields [OF assms]
  show "i16 \<lparr>b = p, off = 0\<rparr> = (Inr apiKey, \<lparr>b = p, off = 2\<rparr>)"
    and "i16 \<lparr>b = p, off = 2\<rparr> = (Inr apiVer, \<lparr>b = p, off = 4\<rparr>)"
    and "i32 \<lparr>b = p, off = 4\<rparr> = (Inr corrID, \<lparr>b = p, off = 8\<rparr>)"
    by (rule ff)+
  {
    fix clientID c
    assume ok: "str16 \<lparr>b = p, off = 8\<rparr> = (Inr clientID, c)"
    show "parseHeader \<lparr>b = p, off = 0\<rparr> = (Inr (apiKey, apiVer, corrID, clientID), c)"
      by (simp add: ff(4) ok)
    show "c = \<lparr>b = p, off = 10 + int (length clientID)\<rparr>"
      using assms(1) ok by (rule str16_at8_Inr)
  next
    fix e c
    assume err: "str16 \<lparr>b = p, off = 8\<rparr> = (Inl e, c)"
    from str16_at8_Inl [OF assms(1) err] have e: "e = ErrUnexpectedEOF" and c: "b c = p"
      by simp_all
    show "e = ErrUnexpectedEOF"
      by (rule e)
    have "c\<lparr>off := 8\<rparr> = \<lparr>b = p, off = 8\<rparr>"
      using c by (cases c) simp
    then show "parseHeader \<lparr>b = p, off = 0\<rparr> =
                (case flexible \<lparr>b = p, off = 8\<rparr> of
                   (Inl err, c') \<Rightarrow> (Inl err, c')
                 | (Inr clientID, c') \<Rightarrow> (Inr (apiKey, apiVer, corrID, clientID), c'))"
      by (simp add: ff(4) err e)
  }
qed

text \<open>C5 on the example request, and on the same request in the flexible encoding.\<close>

theorem C5_header_decoding_witness:
  "(8 \<le> length [0x00, 0x12, 0x00, 0x04, 0x00, 0x00, 0x00, 0x07, 0x00, 0x04, 0x74, 0x65, 0x73, 0x74 :: byte]
    \<and> Uint16 [0x00, 0x12, 0x00, 0x04, 0x00, 0x00, 0x00, 0x07, 0x00, 0x04, 0x74, 0x65, 0x73, 0x74] = Some 18
    \<and> Uint16 (drop 2 [0x00, 0x12, 0x00, 0x04, 0x00, 0x00, 0x00, 0x07, 0x00, 0x04, 0x74, 0x65, 0x73, 0x74]) = Some 4
    \<and> Uint32 (drop 4 [0x00, 0x12, 0x00, 0x04, 0x00, 0x00, 0x00, 0x07, 0x00, 0x04, 0x74, 0x65, 0x73, 0x74]) = Some 7
    \<and> str16 \<lparr>b = [0x00, 0x12, 0x00, 0x04, 0x00, 0x00, 0x00, 0x07, 0x00, 0x04, 0x74, 0x65, 0x73, 0x74], off = 8\<rparr>
        = (Inr [0x74, 0x65, 0x73, 0x74],
           \<lparr>b = [0x00, 0x12, 0x00, 0x04, 0x00, 0x00, 0x00, 0x07, 0x00, 0x04, 0x74, 0x65, 0x73, 0x74], off = 14\<rparr>)
    \<and> parseHeader \<lparr>b = [0x00, 0x12, 0x00, 0x04, 0x00, 0x00, 0x00, 0x07, 0x00, 0x04, 0x74, 0x65, 0x73, 0x74], off = 0\<rparr>
        = (Inr (18, 4, 7, [0x74, 0x65, 0x73, 0x74]),
           \<lparr>b = [0x00, 0x12, 0x00, 0x04, 0x00, 0x00, 0x00, 0x07, 0x00, 0x04, 0x74, 0x65, 0x73, 0x74], off = 14\<rparr>))
   \<and> (8 \<le> length [0x00, 0x12, 0x00, 0x04, 0x00, 0x00, 0x00, 0x07, 0x05, 0x74, 0x65, 0x73, 0x74, 0x00 :: byte]
    \<and> Uint16 [0x00, 0x12, 0x00, 0x04, 0x00, 0x00, 0x00, 0x07, 0x05, 0x74, 0x65, 0x73, 0x74, 0x00] = Some 18
    \<and> Uint16 (drop 2 [0x00, 0x12, 0x00, 0x04, 0x00, 0x00, 0x00, 0x07, 0x05, 0x74, 0x65, 0x73, 0x74, 0x00]) = Some 4
    \<and> Uint32 (drop 4 [0x00, 0x12, 0x00, 0x04, 0x00, 0x00, 0x00, 0x07, 0x05, 0x74, 0x65, 0x73, 0x74, 0x00]) = Some 7
    \<and> str16 \<lparr>b = [0x00, 0x12, 0x00, 0x04, 0x00, 0x00, 0x00, 0x07, 0x05, 0x74, 0x65, 0x73, 0x74, 0x00], off = 8\<rparr>
        = (Inl ErrUnexpectedEOF,
           \<lparr>b = [0x00, 0x12, 0x00, 0x04, 0x00, 0x00, 0x00, 0x07, 0x05, 0x74, 0x65, 0x73, 0x74, 0x00], off = 10\<rparr>)
    \<and> flexible \<lparr>b = [0x00, 0x12, 0x00, 0x04, 0x00, 0x00, 0x00, 0x07, 0x05, 0x74, 0x65, 0x73, 0x74, 0x00], off = 8\<rparr>
        = (Inr [0x74, 0x65, 0x73, 0x74],
           \<lparr>b = [0x00, 0x12, 0x00, 0x04, 0x00, 0x00, 0x00, 0x07, 0x05, 0x74, 0x65, 0x73, 0x74, 0x00], off = 14\<rparr>)
    \<and> parseHeader \<lparr>b = [0x00, 0x12, 0x00, 0x04, 0x00, 0x00, 0x00, 0x07, 0x05, 0x74, 0x65, 0x73, 0x74, 0x00], off = 0\<rparr>
        = (Inr (18, 4, 7, [0x74, 0x65, 0x73, 0x74]),
           \<lparr>b = [0x00, 0x12, 0x00, 0x04, 0x00, 0x00, 0x00, 0x07, 0x05, 0x74, 0x65, 0x73, 0x74, 0x00], off = 14\<rparr>))"
  (is "(?l1 \<and> ?k1 \<and> ?v1 \<and> ?c1 \<and> ?s1 \<and> ?p1) \<and> (?l2 \<and> ?k2 \<and> ?v2 \<and> ?c2 \<and> ?s2 \<and> ?f2 \<and> ?p2)")
proof -
  have h1: ?l1 ?k1 ?v1 ?c1 and h2: ?l2 ?k2 ?v2 ?c2
    by simp_all
  have s1: ?s1 and s2: ?s2 and f2: ?f2
    by code_simp+
  from C5_header_decoding [OF h1] s1 have ?p1
    by simp
  moreover from C5_header_decoding [OF h2] s2 f2 have ?p2
    by simp
  ultimately show ?thesis
    using h1 h2 s1 s2 f2 by simp
qed

section \<open>Which encoding of the client id is read\<close>

lemma byte_high_bit: "bit (x :: byte) 7 = (0x80 \<le> x)"
proof -
  have lt: "unat x < 256"
    using unsigned_less [of x, where 'a = nat] by simp
  have "bit x 7 = bit (unat x) 7"
    by (simp add: bit_unsigned_iff)
  also have "\<dots> = odd (unat x div 2 ^ 7)"
    by (simp add: bit_iff_odd)
  also have "\<dots> = (128 \<le> unat x)"
  proof -
    have "128 \<le> unat x \<Longrightarrow> unat x div 128 = 1"
      using lt by arith
    moreover have "\<not> 128 \<le> unat x \<Longrightarrow> unat x div 128 = 0"
      by simp
    ultimately show ?thesis
      by (cases "128 \<le> unat x") simp_all
  qed
  also have "\<dots> = (0x80 \<le> x)"
    by (simp add: word_le_nat_alt)
  finally show ?thesis .
qed

lemma neg16:
  "(0x80 :: byte) \<le> x0 \<Longrightarrow> (ucast (x1 :: byte) OR push_bit 8 (ucast x0) :: 16 word) <s 0"
proof -
  assume "0x80 \<le> x0"
  then have "bit x0 7"
    by (simp add: byte_high_bit)
  then have "bit (ucast (x1 :: byte) OR push_bit 8 (ucast x0) :: 16 word) (LENGTH(16) - Suc 0)"
    by (simp add: bit_simps)
  then show ?thesis
    unfolding bit_last_iff word_sless_alt by simp
qed

lemma nonneg16:
  "x0 < (0x80 :: byte) \<Longrightarrow> \<not> (ucast (x1 :: byte) OR push_bit 8 (ucast x0) :: 16 word) <s 0"
proof -
  assume "x0 < 0x80"
  then have "\<not> bit x0 7"
    by (simp add: byte_high_bit not_le)
  then have "\<not> bit (ucast (x1 :: byte) OR push_bit 8 (ucast x0) :: 16 word) (LENGTH(16) - Suc 0)"
    by (auto simp: bit_simps dest: bit_imp_le_length)
  then show ?thesis
    unfolding bit_last_iff word_sless_alt by simp
qed

text \<open>The legacy read at position 8 when the byte there has its high bit set.\<close>

lemma str16_high_bit:
  assumes "10 \<le> length p" and "0x80 \<le> p ! 8"
  shows "str16 \<lparr>b = p, off = 8\<rparr> = (Inr [], \<lparr>b = p, off = 10\<rparr>)"
proof -
  from assms(1) have "8 \<le> length p"
    by simp
  then obtain x0 x1 x2 x3 x4 x5 x6 x7 r
    where p: "p = x0 # x1 # x2 # x3 # x4 # x5 # x6 # x7 # r"
    by (rule split8)
  with assms(1) obtain y0 y1 r' where r: "r = y0 # y1 # r'"
    by (cases r; cases "tl r") auto
  from assms(2) have "0x80 \<le> y0"
    by (simp add: p r)
  then show ?thesis
    unfolding p str16_at8 by (simp add: r neg16)
qed

lemma str16_fails:
  assumes "8 \<le> length p" and "fst (str16 \<lparr>b = p, off = 8\<rparr>) = Inl ErrUnexpectedEOF"
  shows "length p < 10
     \<or> (p ! 8 < 0x80 \<and> (\<exists>l. Uint16 (drop 8 p) = Some l \<and> int (length p) < 10 + sint l))"
proof -
  from assms(1) obtain x0 x1 x2 x3 x4 x5 x6 x7 r
    where p: "p = x0 # x1 # x2 # x3 # x4 # x5 # x6 # x7 # r"
    by (rule split8)
  show ?thesis
  proof (cases "length p < 10")
    case True
    then show ?thesis ..
  next
    case False
    then obtain y0 y1 r' where r: "r = y0 # y1 # r'"
      unfolding p by (cases r; cases "tl r") auto
    have "\<not> 0x80 \<le> y0"
    proof
      assume "0x80 \<le> y0"
      then have "str16 \<lparr>b = p, off = 8\<rparr> = (Inr [], \<lparr>b = p, off = 10\<rparr>)"
        using False by (intro str16_high_bit) (simp_all add: p r)
      with assms(2) show False
        by simp
    qed
    then have lo: "y0 < 0x80"
      by simp
    then have "int (length r') < sint (ucast y1 OR push_bit 8 (ucast y0) :: 16 word)"
      using assms(2) unfolding p str16_at8
      by (simp add: r nonneg16 Let_def split: if_splits)
    with lo show ?thesis
      by (simp add: p r)
  qed
qed

lemma Uvarint_short:
  "Uvarint [] = (0, 0)" "0x80 \<le> y \<Longrightarrow> Uvarint [y] = (0, 0)"
  by (simp_all add: Uvarint_def not_less [symmetric])

lemma Uvarint_single: "y < 0x80 \<Longrightarrow> Uvarint (y # ys) = (ucast y, 1)"
  by (simp add: Uvarint_def)

lemma sint_small:
  fixes v :: "64 word"
  assumes "uint v < 2 ^ 63"
  shows "sint v = uint v"
proof -
  have "sint v = signed_take_bit 63 (uint v)"
    by (simp add: sint_uint)
  also have "\<dots> = uint v"
  proof (rule signed_take_bit_int_eq_self)
    show "- (2 ^ 63) \<le> uint v"
      by (rule order_trans [OF _ uint_ge_0]) simp
    show "uint v < 2 ^ 63"
      by (rule assms)
  qed
  finally show ?thesis .
qed

lemma uint_ucast_byte: "uint (ucast (y :: byte) :: 64 word) = uint y"
proof -
  have "uint y < 2 ^ 8"
    using uint_lt2p [of y] by simp
  then have "uint y < 2 ^ 64"
    by simp
  then show ?thesis
    by (simp add: unsigned_ucast_eq take_bit_int_eq_self)
qed

lemma small_len:
  fixes y :: byte
  assumes "y \<noteq> 0"
  shows "sint (ucast y - 1 :: 64 word) = uint y - 1"
proof -
  have lt: "uint y < 256"
    using uint_lt2p [of y] by simp
  from assms have "uint y \<noteq> 0"
    by (simp add: uint_0_iff)
  then have pos: "1 \<le> uint y"
    using uint_ge_0 [of y] by linarith
  then have "uint (1 :: 64 word) \<le> uint (ucast y :: 64 word)"
    by (simp add: uint_ucast_byte)
  then have u: "uint (ucast y - 1 :: 64 word) = uint y - 1"
    by (simp add: uint_sub_lem [THEN iffD1] uint_ucast_byte)
  then have "uint (ucast y - 1 :: 64 word) < 2 ^ 63"
    using lt by simp
  then show ?thesis
    using u by (simp add: sint_small)
qed

lemma go_int_9: "go_int 9 = 9"
  by (simp add: go_int_id)

lemma flexible_needs_small_byte:
  assumes "8 \<le> length p" and "fst (str16 \<lparr>b = p, off = 8\<rparr>) = Inl ErrUnexpectedEOF"
    and "flexible \<lparr>b = p, off = 8\<rparr> = (Inr clientID, c)"
  shows "9 \<le> length p \<and> p ! 8 < 0x80 \<and> length clientID < 127"
proof -
  from assms(1) obtain x0 x1 x2 x3 x4 x5 x6 x7 r
    where p: "p = x0 # x1 # x2 # x3 # x4 # x5 # x6 # x7 # r"
    by (rule split8)
  from assms(3) obtain c5 where cs: "compactNullableString \<lparr>b = p, off = 8\<rparr> = (Inr clientID, c5)"
    by (auto simp: flexible_def split: prod.splits sum.splits)
  then obtain n1 c1 where uv: "uvarint \<lparr>b = p, off = 8\<rparr> = (Inr n1, c1)"
    by (auto simp: compactNullableString_def split: prod.splits sum.splits)
  have sl: "slice_from p 8 = Some r"
    by (simp add: slice_from_def p)
  from uv sl have r_ne: "r \<noteq> []"
    by (auto simp: uvarint_def Uvarint_short)
  then obtain y ys where r: "r = y # ys"
    by (cases r) auto
  have lo: "y < 0x80"
  proof (cases ys)
    case Nil
    show ?thesis
    proof (rule ccontr)
      assume "\<not> y < 0x80"
      then have "Uvarint [y] = (0, 0)"
        by (simp add: Uvarint_short)
      with uv sl show False
        by (simp add: uvarint_def r Nil)
    qed
  next
    case (Cons y1 ys')
    with str16_fails [OF assms(1,2)] show ?thesis
      by (simp add: p r)
  qed
  then have uv': "uvarint \<lparr>b = p, off = 8\<rparr> = (Inr (ucast y), \<lparr>b = p, off = 9\<rparr>)"
    using sl by (simp add: uvarint_def r Uvarint_single go_int_9)
  have "length clientID < 127"
  proof (cases "y = 0")
    case True
    with cs uv' show ?thesis
      by (simp add: compactNullableString_def)
  next
    case False
    then have nz: "(ucast y :: 64 word) \<noteq> 0"
      by (metis uint_0_iff uint_ucast_byte)
    have "uint y < 128"
      using lo by (simp add: word_less_def)
    then have n: "sint (ucast y - 1 :: 64 word) < 127"
      by (simp add: small_len [OF False])
    from cs uv' nz have "\<exists>hi. slice_between p 9 hi = Some clientID \<and> hi = go_int (9 + sint (ucast y - 1 :: 64 word))"
      by (auto simp: compactNullableString_def Let_def split: option.splits)
    then obtain hi where "slice_between p 9 hi = Some clientID" and "hi = go_int (9 + sint (ucast y - 1 :: 64 word))"
      by blast
    moreover have "go_int (9 + sint (ucast y - 1 :: 64 word)) = 9 + sint (ucast y - 1 :: 64 word)"
      using n small_len [OF False] uint_ge_0 [of y] by (intro go_int_id) simp_all
    ultimately show ?thesis
      using n by (auto simp: slice_between_def split: if_splits)
  qed
  with lo r_ne show ?thesis
    by (simp add: p r)
qed

lemma spec_uvarint_nonempty: "spec_uvarint m \<noteq> []"
  by (subst spec_uvarint.simps) (simp del: spec_uvarint.simps)

lemma spec_uvarint_multi:
  assumes "0x80 \<le> n"
  shows "\<exists>y0 y1 ys. spec_uvarint n = y0 # y1 # ys \<and> 0x80 \<le> y0"
proof -
  obtain y1 ys where t: "spec_uvarint (drop_bit 7 n) = y1 # ys"
    using spec_uvarint_nonempty [of "drop_bit 7 n"] by (cases "spec_uvarint (drop_bit 7 n)") auto
  from assms have "\<not> n < 0x80"
    by simp
  then have "spec_uvarint n = (ucast n OR 0x80) # spec_uvarint (drop_bit 7 n)"
    by (subst spec_uvarint.simps) (simp del: spec_uvarint.simps)
  moreover have "bit (ucast n OR 0x80 :: byte) 7"
    by (simp add: bit_simps)
  then have "(0x80 :: byte) \<le> ucast n OR 0x80"
    by (simp only: byte_high_bit)
  ultimately show ?thesis
    using t by simp
qed

lemma compact_string_multi:
  assumes "127 \<le> length s" and "length s < 2 ^ 63"
  shows "\<exists>y0 y1 ys. spec_compact_string s = y0 # y1 # ys \<and> 0x80 \<le> y0"
proof -
  have "unat (of_nat (length s + 1) :: 64 word) = length s + 1"
  proof -
    have "length s + 1 < 2 ^ LENGTH(64)"
      using assms(2) by simp
    then show ?thesis
      unfolding unat_of_nat by (rule mod_less)
  qed
  with assms(1) have "(0x80 :: 64 word) \<le> of_nat (length s + 1)"
    by (simp add: word_le_nat_alt)
  from spec_uvarint_multi [OF this] show ?thesis
    by (auto simp: spec_compact_string_def)
qed

lemma bit_128: "bit (0x80 :: 'a :: len word) n = (n = 7 \<and> 7 < LENGTH('a))"
proof -
  have "(0x80 :: 'a word) = 2 ^ 7"
    by simp
  then show ?thesis
    by (simp only: bit_exp_iff possible_bit_word) auto
qed

lemma bit_128_int: "bit (128 :: int) n = (n = 7)"
proof -
  have "(128 :: int) = 2 ^ 7"
    by simp
  then show ?thesis
    by (simp only: bit_exp_iff) auto
qed

lemma low7: "(ucast ((ucast (x :: 64 word) OR 0x80) AND 0x7f :: byte) :: 64 word) = take_bit 7 x"
proof -
  have m: "(0x7f :: byte) = mask 7"
    by (simp add: mask_eq_exp_minus_1)
  show ?thesis
    unfolding m by (rule bit_word_eqI) (auto simp: bit_simps bit_128 bit_128_int)
qed

lemma glue7: "push_bit s (take_bit 7 x) OR push_bit (s + 7) (drop_bit 7 x) = push_bit s (x :: 64 word)"
  (is "?l = ?r")
proof (rule bit_word_eqI)
  fix n assume "n < LENGTH(64)"
  show "bit ?l n = bit ?r n"
    by (cases "n < s + 7") (auto simp: bit_simps)
qed

lemma small_take: "(x :: 64 word) < 0x80 \<Longrightarrow> take_bit 7 x = x"
  using less_mask_eq [of x 7] by (simp add: take_bit_eq_mask)

lemma last_byte: 
  assumes "(x :: 64 word) < 0x80"
  shows "(ucast (ucast x :: byte) :: 64 word) = x"
proof -
  have "(ucast (ucast (take_bit 7 x) :: byte) :: 64 word) = take_bit 7 x"
    by (rule bit_word_eqI) (auto simp: bit_simps)
  then show ?thesis
    by (simp only: small_take [OF assms])
qed

lemma last_byte_lt:
  assumes "(x :: 64 word) < 0x80"
  shows "(ucast x :: byte) < 0x80"
proof -
  have "\<not> bit (ucast (take_bit 7 x) :: byte) 7"
    by (simp add: bit_simps)
  then have "\<not> bit (ucast x :: byte) 7"
    unfolding small_take [OF assms] .
  then have "\<not> 0x80 \<le> (ucast x :: byte)"
    unfolding byte_high_bit .
  then show ?thesis
    by (simp only: not_le)
qed

lemma cont_byte: "\<not> (ucast (x :: 64 word) OR 0x80 :: byte) < 0x80"
proof -
  have "bit (ucast x OR 0x80 :: byte) 7"
    by (simp add: bit_simps bit_128)
  then show ?thesis
    by (simp only: byte_high_bit not_less)
qed

text \<open>
  The decoder of the program reads back what the specified encoder writes: the value,
  and as many bytes as were written.
\<close>

lemma spec_uvarint_small: "x < 0x80 \<Longrightarrow> spec_uvarint x = [ucast x]"
  by (subst spec_uvarint.simps) (simp del: spec_uvarint.simps)

lemma spec_uvarint_large:
  "\<not> x < 0x80 \<Longrightarrow> spec_uvarint x = (ucast x OR 0x80) # spec_uvarint (drop_bit 7 x)"
  by (subst spec_uvarint.simps) (simp del: spec_uvarint.simps)

lemma Uvarint_loop_spec:
  "i \<le> 9 \<Longrightarrow> unat x < 2 ^ (64 - 7 * i) \<Longrightarrow>
   Uvarint_loop (spec_uvarint x @ rest) i acc (7 * i)
     = (acc OR push_bit (7 * i) x, int i + int (length (spec_uvarint x)))"
proof (induction x arbitrary: i acc rule: spec_uvarint.induct)
  case (1 x)
  show ?case
  proof (cases "x < 0x80")
    case True
    have "\<not> (i = 9 \<and> 1 < (ucast x :: byte))"
    proof
      assume h: "i = 9 \<and> 1 < (ucast x :: byte)"
      with "1.prems"(2) have "unat x < 2"
        by simp
      then have "unat x = 0 \<or> unat x = 1"
        by auto
      then have "x = 0 \<or> x = 1"
        by (simp add: word_unat_eq_iff)
      with h show False
        by auto
    qed
    with True "1.prems"(1) show ?thesis
      by (simp add: spec_uvarint_small last_byte last_byte_lt del: spec_uvarint.simps)
  next
    case False
    then have ge: "128 \<le> unat x"
      by (simp add: not_less word_le_nat_alt)
    have i8: "i \<le> 8"
    proof (rule ccontr)
      assume "\<not> i \<le> 8"
      with "1.prems"(1) have "i = 9"
        by simp
      with "1.prems"(2) ge show False
        by simp
    qed
    then have p: "(2 :: nat) ^ (64 - 7 * i) = 128 * 2 ^ (64 - 7 * (i + 1))"
    proof -
      have "64 - 7 * i = 7 + (64 - 7 * (i + 1))"
        using i8 by simp
      then show ?thesis
        by (simp only: power_add) simp
    qed
    have "unat (drop_bit 7 x) = unat x div 128"
      by (simp add: drop_bit_eq_div unat_div)
    with "1.prems"(2) p have small: "unat (drop_bit 7 x) < 2 ^ (64 - 7 * (i + 1))"
      by (simp add: less_mult_imp_div_less mult.commute)
    from i8 have i9: "i + 1 \<le> 9"
      by simp
    have s7: "7 * (i + 1) = 7 * i + 7"
      by simp
    have "Uvarint_loop (spec_uvarint x @ rest) i acc (7 * i)
        = Uvarint_loop (spec_uvarint (drop_bit 7 x) @ rest) (i + 1)
            (acc OR push_bit (7 * i) (take_bit 7 x)) (7 * (i + 1))"
      using i8 by (simp add: spec_uvarint_large [OF False] cont_byte low7 add.commute del: spec_uvarint.simps)
    also have "\<dots> = ((acc OR push_bit (7 * i) (take_bit 7 x)) OR push_bit (7 * (i + 1)) (drop_bit 7 x),
        int (i + 1) + int (length (spec_uvarint (drop_bit 7 x))))"
      using False i9 small by (rule "1.IH")
    also have "\<dots> = (acc OR push_bit (7 * i) x, int i + int (length (spec_uvarint x)))"
    proof -
      have "(acc OR push_bit (7 * i) (take_bit 7 x)) OR push_bit (7 * (i + 1)) (drop_bit 7 x)
          = acc OR push_bit (7 * i) x"
        unfolding s7 by (simp only: or.assoc glue7)
      then show ?thesis
        by (simp add: spec_uvarint_large [OF False] del: spec_uvarint.simps)
    qed
    finally show ?thesis .
  qed
qed

lemma Uvarint_spec:
  "Uvarint (spec_uvarint x @ rest) = (x, int (length (spec_uvarint x)))"
proof -
  have "unat x < 2 ^ 64"
    using unsigned_less [of x, where 'a = nat] by simp
  then show ?thesis
    using Uvarint_loop_spec [of 0 x rest 0] by (simp add: Uvarint_def del: spec_uvarint.simps)
qed

text \<open>A client id in the flexible encoding, as the flexible read decodes it.\<close>

lemma sint_of_nat_small:
  assumes "n < 2 ^ 63"
  shows "sint (of_nat n :: 64 word) = int n"
proof -
  have "n < 2 ^ LENGTH(64)"
    using assms by simp
  then have "unat (of_nat n :: 64 word) = n"
    unfolding unat_of_nat by (rule mod_less)
  then have u: "uint (of_nat n :: 64 word) = int n"
    by (simp add: uint_nat)
  then have "uint (of_nat n :: 64 word) < 2 ^ 63"
    using assms by simp
  from sint_small [OF this] u show ?thesis
    by simp
qed

lemma compactNullableString_spec:
  assumes "int (length (pre @ spec_compact_string s @ rest)) < 2 ^ 63"
  shows "compactNullableString \<lparr>b = pre @ spec_compact_string s @ rest, off = int (length pre)\<rparr>
     = (Inr s, \<lparr>b = pre @ spec_compact_string s @ rest,
                off = int (length pre) + int (length (spec_compact_string s))\<rparr>)"
proof -
  define n1 :: "64 word" where "n1 = of_nat (length s + 1)"
  define e where "e = spec_uvarint n1"
  have cs: "spec_compact_string s = e @ s"
    by (simp only: spec_compact_string_def e_def n1_def)
  have e0: "0 < length e"
    using spec_uvarint_nonempty [of n1] by (simp add: e_def del: spec_uvarint.simps)
  have len: "int (length pre) + int (length e) + int (length s) + int (length rest) < 2 ^ 63"
    using assms by (simp add: cs)
  have "1 \<le> int (length e)"
    using e0 by linarith
  with len have "int (length s + 1) < 2 ^ 63"
    by simp
  then have ls1: "length s + 1 < 2 ^ 63"
    by (metis of_nat_less_iff of_nat_numeral of_nat_power)
  then have ls: "length s < 2 ^ 63"
    by simp
  have g1: "go_int (int (length pre) + int (length e)) = int (length pre) + int (length e)"
    using len by (intro go_int_id) simp_all
  have "Uvarint (e @ s @ rest) = (n1, int (length e))"
    unfolding e_def by (rule Uvarint_spec)
  then have uv: "uvarint \<lparr>b = pre @ e @ s @ rest, off = int (length pre)\<rparr>
      = (Inr n1, \<lparr>b = pre @ e @ s @ rest, off = int (length pre) + int (length e)\<rparr>)"
    using e0 by (simp add: uvarint_def slice_from_def g1)
  have "sint n1 = int (length s + 1)"
    unfolding n1_def using ls1 by (rule sint_of_nat_small)
  then have nz: "n1 \<noteq> 0"
    by auto
  have "n1 - 1 = of_nat (length s)"
    by (simp add: n1_def)
  then have m: "sint (n1 - 1) = int (length s)"
    using sint_of_nat_small [OF ls] by simp
  have g2: "go_int (int (length pre) + int (length e) + int (length s))
      = int (length pre) + int (length e) + int (length s)"
    using len by (intro go_int_id) simp_all
  have sl: "slice_between (pre @ e @ s @ rest) (int (length pre) + int (length e))
      (int (length pre) + int (length e) + int (length s)) = Some s"
    by (simp add: slice_between_def nat_add_distrib)
  have "compactNullableString \<lparr>b = pre @ e @ s @ rest, off = int (length pre)\<rparr>
     = (Inr s, \<lparr>b = pre @ e @ s @ rest, off = int (length pre) + int (length (e @ s))\<rparr>)"
    using nz by (simp add: compactNullableString_def uv m need_def g2 sl Let_def)
  then show ?thesis
    by (simp only: cs append_assoc)
qed

text \<open>
  C10, as stated, says that the flexible path is reached only when the byte at the saved
  position is below 0x80. On the 9-byte payload below that byte is 0x80: the legacy read
  fails, because only one byte follows the fixed fields, and the result of header
  decoding is the result of the flexible path.
\<close>

theorem C10_counterexample:
  "fst (str16 \<lparr>b = [0x00, 0x12, 0x00, 0x04, 0x00, 0x00, 0x00, 0x07, 0x80], off = 8\<rparr>)
     = Inl ErrUnexpectedEOF
   \<and> parseHeader \<lparr>b = [0x00, 0x12, 0x00, 0x04, 0x00, 0x00, 0x00, 0x07, 0x80], off = 0\<rparr>
     = (case flexible \<lparr>b = [0x00, 0x12, 0x00, 0x04, 0x00, 0x00, 0x00, 0x07, 0x80], off = 8\<rparr> of
          (Inl err, c) \<Rightarrow> (Inl err, c)
        | (Inr clientID, c) \<Rightarrow> (Inr (18, 4, 7, clientID), c))
   \<and> \<not> [0x00, 0x12, 0x00, 0x04, 0x00, 0x00, 0x00, 0x07, 0x80 :: byte] ! 8 < 0x80"
  by code_simp

text \<open>
  C10, amended. Over a payload that holds the 8 fixed bytes: (1) if at least 2 bytes
  follow them and the first has its high bit set, the legacy read takes a negative
  length and succeeds with the empty client id, and header decoding returns that,
  leaving the cursor at position 10: the flexible path is not run. (2) The legacy read
  fails only by truncation: either fewer than 2 bytes follow the fixed fields, or the
  byte at the saved position is below 0x80 and the payload is shorter than the length
  read. (3) The flexible path succeeds only when a byte at the saved position exists
  and is below 0x80, a one-byte compact length, so the client id it returns has fewer
  than 127 bytes. (4) A client id of 127 bytes or more in the flexible encoding, whose
  length prefix takes at least two bytes, is decoded as the empty client id by the
  legacy path, although the flexible read from the saved position would return it.
\<close>

theorem C10_legacy_shadows_flexible:
  assumes "8 \<le> length p" and "Uint16 p = Some apiKey" and "Uint16 (drop 2 p) = Some apiVer"
    and "Uint32 (drop 4 p) = Some corrID"
  shows "(10 \<le> length p \<and> 0x80 \<le> p ! 8 \<longrightarrow>
            str16 \<lparr>b = p, off = 8\<rparr> = (Inr [], \<lparr>b = p, off = 10\<rparr>)
            \<and> parseHeader \<lparr>b = p, off = 0\<rparr>
                = (Inr (apiKey, apiVer, corrID, []), \<lparr>b = p, off = 10\<rparr>))
     \<and> (fst (str16 \<lparr>b = p, off = 8\<rparr>) = Inl ErrUnexpectedEOF \<longrightarrow>
            length p < 10
            \<or> (p ! 8 < 0x80
                \<and> (\<exists>l. Uint16 (drop 8 p) = Some l \<and> int (length p) < 10 + sint l)))
     \<and> (\<forall>clientID c.
            fst (str16 \<lparr>b = p, off = 8\<rparr>) = Inl ErrUnexpectedEOF
            \<and> flexible \<lparr>b = p, off = 8\<rparr> = (Inr clientID, c) \<longrightarrow>
            9 \<le> length p \<and> p ! 8 < 0x80 \<and> length clientID < 127)
     \<and> (\<forall>s tags.
            127 \<le> length s \<and> int (length p) < 2 ^ 63 \<and> drop 8 p = spec_compact_string s @ tags \<longrightarrow>
            parseHeader \<lparr>b = p, off = 0\<rparr>
              = (Inr (apiKey, apiVer, corrID, []), \<lparr>b = p, off = 10\<rparr>)
            \<and> fst (compactNullableString \<lparr>b = p, off = 8\<rparr>) = Inr s)"
proof (intro conjI allI impI)
  note ff = fixed_fields [OF assms]
  have legacy: "parseHeader \<lparr>b = p, off = 0\<rparr>
      = (Inr (apiKey, apiVer, corrID, []), \<lparr>b = p, off = 10\<rparr>)"
    if "10 \<le> length p" and "0x80 \<le> p ! 8"
    by (simp add: ff(4) str16_high_bit [OF that])
  {
    assume h: "10 \<le> length p \<and> 0x80 \<le> p ! 8"
    then show "str16 \<lparr>b = p, off = 8\<rparr> = (Inr [], \<lparr>b = p, off = 10\<rparr>)"
      by (intro str16_high_bit) simp_all
    from h show "parseHeader \<lparr>b = p, off = 0\<rparr>
        = (Inr (apiKey, apiVer, corrID, []), \<lparr>b = p, off = 10\<rparr>)"
      by (intro legacy) simp_all
  next
    assume "fst (str16 \<lparr>b = p, off = 8\<rparr>) = Inl ErrUnexpectedEOF"
    with assms(1) show "length p < 10
        \<or> (p ! 8 < 0x80
            \<and> (\<exists>l. Uint16 (drop 8 p) = Some l \<and> int (length p) < 10 + sint l))"
      by (rule str16_fails)
  next
    fix clientID c
    assume h: "fst (str16 \<lparr>b = p, off = 8\<rparr>) = Inl ErrUnexpectedEOF
        \<and> flexible \<lparr>b = p, off = 8\<rparr> = (Inr clientID, c)"
    from flexible_needs_small_byte [OF assms(1) conjunct1 [OF h] conjunct2 [OF h]]
    show "9 \<le> length p" and "p ! 8 < 0x80" and "length clientID < 127"
      by simp_all
  next
    fix s tags
    assume h: "127 \<le> length s \<and> int (length p) < 2 ^ 63 \<and> drop 8 p = spec_compact_string s @ tags"
    from h have d0: "drop 8 p = spec_compact_string s @ tags"
      by simp
    have pp: "p = take 8 p @ spec_compact_string s @ tags"
      using append_take_drop_id [of 8 p] d0 by simp
    have l8: "length (take 8 p) = 8"
      using assms(1) by simp
    have "length s \<le> length (spec_compact_string s @ tags)"
      by (simp add: spec_compact_string_def del: spec_uvarint.simps)
    also have "\<dots> = length (drop 8 p)"
      by (simp only: d0)
    also have "\<dots> \<le> length p"
      by simp
    finally have "length s \<le> length p" .
    with h have "length s < 2 ^ 63"
      by simp
    with h obtain y0 y1 ys where e: "spec_compact_string s = y0 # y1 # ys" and hi: "0x80 \<le> y0"
      using compact_string_multi [of s] by auto
    from d0 e have d: "drop 8 p = y0 # y1 # ys @ tags"
      by simp
    then have "length (drop 8 p) \<ge> 2"
      by simp
    then have len: "10 \<le> length p"
      by simp
    from d have "p ! 8 = y0"
      using nth_via_drop by fastforce
    with hi len show "parseHeader \<lparr>b = p, off = 0\<rparr>
        = (Inr (apiKey, apiVer, corrID, []), \<lparr>b = p, off = 10\<rparr>)"
      by (intro legacy) simp_all
    have "int (length (take 8 p @ spec_compact_string s @ tags)) < 2 ^ 63"
      using h pp by simp
    from compactNullableString_spec [OF this]
    have "fst (compactNullableString \<lparr>b = take 8 p @ spec_compact_string s @ tags, off = 8\<rparr>) = Inr s"
      by (simp only: l8) simp
    then show "fst (compactNullableString \<lparr>b = p, off = 8\<rparr>) = Inr s"
      using pp by simp
  }
qed

text \<open>
  C10 on a payload whose ninth byte is 0x80, on the flexible encoding of "test", and on
  the flexible encoding of a client id of 127 bytes.
\<close>

theorem C10_legacy_shadows_flexible_witness:
  "parseHeader \<lparr>b = [0x00, 0x12, 0x00, 0x04, 0x00, 0x00, 0x00, 0x07, 0x80, 0x01], off = 0\<rparr>
     = (Inr (18, 4, 7, []), \<lparr>b = [0x00, 0x12, 0x00, 0x04, 0x00, 0x00, 0x00, 0x07, 0x80, 0x01], off = 10\<rparr>)
   \<and> (fst (str16 \<lparr>b = [0x00, 0x12, 0x00, 0x04, 0x00, 0x00, 0x00, 0x07, 0x05, 0x74, 0x65, 0x73, 0x74, 0x00],
                off = 8\<rparr>) = Inl ErrUnexpectedEOF
      \<and> flexible \<lparr>b = [0x00, 0x12, 0x00, 0x04, 0x00, 0x00, 0x00, 0x07, 0x05, 0x74, 0x65, 0x73, 0x74, 0x00],
                off = 8\<rparr>
          = (Inr [0x74, 0x65, 0x73, 0x74],
             \<lparr>b = [0x00, 0x12, 0x00, 0x04, 0x00, 0x00, 0x00, 0x07, 0x05, 0x74, 0x65, 0x73, 0x74, 0x00],
                off = 14\<rparr>)
      \<and> [0x00, 0x12, 0x00, 0x04, 0x00, 0x00, 0x00, 0x07, 0x05, 0x74, 0x65, 0x73, 0x74, 0x00 :: byte] ! 8 < 0x80)
   \<and> (127 \<le> length (replicate 127 (0x41 :: byte))
      \<and> parseHeader
          \<lparr>b = [0x00, 0x12, 0x00, 0x04, 0x00, 0x00, 0x00, 0x07]
                 @ spec_compact_string (replicate 127 0x41) @ [0x00], off = 0\<rparr>
          = (Inr (18, 4, 7, []),
             \<lparr>b = [0x00, 0x12, 0x00, 0x04, 0x00, 0x00, 0x00, 0x07]
                 @ spec_compact_string (replicate 127 0x41) @ [0x00], off = 10\<rparr>))"
  (is "?w1 \<and> (?s2 \<and> ?f2 \<and> ?y2) \<and> (?l3 \<and> ?w3)")
proof -
  let ?p1 = "[0x00, 0x12, 0x00, 0x04, 0x00, 0x00, 0x00, 0x07, 0x80, 0x01] :: byte list"
  let ?p2 = "[0x00, 0x12, 0x00, 0x04, 0x00, 0x00, 0x00, 0x07, 0x05, 0x74, 0x65, 0x73, 0x74, 0x00] :: byte list"
  let ?s = "replicate 127 (0x41 :: byte)"
  let ?p3 = "[0x00, 0x12, 0x00, 0x04, 0x00, 0x00, 0x00, 0x07] @ spec_compact_string ?s @ [0x00]"
  have h1: "8 \<le> length ?p1" "Uint16 ?p1 = Some 18" "Uint16 (drop 2 ?p1) = Some 4"
    "Uint32 (drop 4 ?p1) = Some 7"
    by simp_all
  have h2: "8 \<le> length ?p2" "Uint16 ?p2 = Some 18" "Uint16 (drop 2 ?p2) = Some 4"
    "Uint32 (drop 4 ?p2) = Some 7"
    by simp_all
  have h3: "8 \<le> length ?p3" "Uint16 ?p3 = Some 18" "Uint16 (drop 2 ?p3) = Some 4"
    "Uint32 (drop 4 ?p3) = Some 7"
    by simp_all
  have g1: "10 \<le> length ?p1 \<and> 0x80 \<le> ?p1 ! 8"
    by simp
  have s2: ?s2 and f2: ?f2
    by code_simp+
  have "length ?p3 = 138"
    by code_simp
  then have g3: "127 \<le> length ?s \<and> int (length ?p3) < 2 ^ 63
      \<and> drop 8 ?p3 = spec_compact_string ?s @ [0x00]"
    by simp
  from C10_legacy_shadows_flexible [OF h1] g1 have ?w1
    by blast
  moreover from C10_legacy_shadows_flexible [OF h2] s2 f2 have ?y2
    by blast
  moreover from C10_legacy_shadows_flexible [OF h3] g3 have ?w3
    by blast
  ultimately show ?thesis
    using s2 f2 by simp
qed

section \<open>The connection handler\<close>

lemma ReadFull_prefix:
  "length xs = n \<Longrightarrow> ReadFull (s\<lparr>rd := xs @ rest\<rparr>) n = (Inr xs, s\<lparr>rd := rest\<rparr>)"
  by (simp add: ReadFull_def)

lemma handleFrame_rejects:
  assumes "length lenBuf = 4" and "Uint32 lenBuf = Some frameSize"
    and "sint frameSize < 0 \<or> 10 * 1024 * 1024 < sint frameSize"
  shows "handleFrame (s\<lparr>rd := lenBuf @ rest\<rparr>) = (Return, s\<lparr>rd := rest\<rparr>)"
  using assms
  by (auto simp: handleFrame_def ReadFull_prefix word_sless_alt)

lemma handleFrame_payload:
  assumes "length lenBuf = 4" and "Uint32 lenBuf = Some frameSize"
    and "0 \<le> sint frameSize" and "sint frameSize \<le> 10 * 1024 * 1024"
    and "int (length p) = sint frameSize"
  shows "handleFrame (s\<lparr>rd := lenBuf @ p @ rest\<rparr>) =
     (case parseHeader \<lparr>b = p, off = 0\<rparr> of
        (Inl ErrUnexpectedEOF, c) \<Rightarrow> (Return, s\<lparr>rd := rest, made := made s @ [length p]\<rparr>)
      | (Inl PanicOutOfRange, c) \<Rightarrow> (Crash, s\<lparr>rd := rest, made := made s @ [length p]\<rparr>)
      | (Inr (apiKey, apiVer, corrID, clientID), c) \<Rightarrow>
          (case buildApiVersionsResponse corrID (decideErrCode apiKey apiVer) of
             None \<Rightarrow> (Crash, s\<lparr>rd := rest, made := made s @ [length p]\<rparr>)
           | Some resp \<Rightarrow>
               if broken s then (Return, s\<lparr>rd := rest, made := made s @ [length p]\<rparr>)
               else (Next, s\<lparr>rd := rest, made := made s @ [length p], wr := wr s @ resp\<rparr>)))"
proof -
  have n: "nat (sint frameSize) = length p"
    using assms(5) by simp
  have r: "ReadFull (s\<lparr>rd := p @ rest, made := made s @ [length p]\<rparr>) (length p)
      = (Inr p, s\<lparr>rd := rest, made := made s @ [length p]\<rparr>)"
    by (simp add: ReadFull_def)
  show ?thesis
    using assms(1-4)
    by (simp add: handleFrame_def ReadFull_prefix word_sless_alt n r Write_def Let_def
        split: prod.splits sum.splits fault.splits option.splits)
qed


lemma Uint16_None_iff: "(Uint16 s = None) = (length s < 2)"
  by (cases s rule: Uint16.cases) simp_all

lemma Uint32_None_iff: "(Uint32 s = None) = (length s < 4)"
  by (cases s rule: Uint32.cases) simp_all

lemma parseHeader_short:
  assumes "length p < 8"
  shows "fst (parseHeader \<lparr>b = p, off = 0\<rparr>) = Inl ErrUnexpectedEOF"
proof -
  have "i16 \<lparr>b = p, off = 0\<rparr> = (Inl ErrUnexpectedEOF, \<lparr>b = p, off = 0\<rparr>)
      \<or> (\<exists>v. i16 \<lparr>b = p, off = 0\<rparr> = (Inr v, \<lparr>b = p, off = 2\<rparr>))"
    by (auto simp: i16_def need_def slice_from_def Uint16_None_iff split: option.splits)
  moreover have "i16 \<lparr>b = p, off = 2\<rparr> = (Inl ErrUnexpectedEOF, \<lparr>b = p, off = 2\<rparr>)
      \<or> (\<exists>v. i16 \<lparr>b = p, off = 2\<rparr> = (Inr v, \<lparr>b = p, off = 4\<rparr>))"
    by (auto simp: i16_def need_def slice_from_def Uint16_None_iff split: option.splits)
  moreover have "i32 \<lparr>b = p, off = 4\<rparr> = (Inl ErrUnexpectedEOF, \<lparr>b = p, off = 4\<rparr>)"
    using assms by (simp add: i32_def need_def)
  ultimately show ?thesis
    by (auto simp: parseHeader_def)
qed

lemma parseHeader_both_fail:
  assumes "8 \<le> length p"
    and "fst (str16 \<lparr>b = p, off = 8\<rparr>) = Inl ErrUnexpectedEOF"
    and "fst (flexible \<lparr>b = p, off = 8\<rparr>) = Inl ErrUnexpectedEOF"
  shows "fst (parseHeader \<lparr>b = p, off = 0\<rparr>) = Inl ErrUnexpectedEOF"
proof -
  from assms(1) obtain x0 x1 x2 x3 x4 x5 x6 x7 r
    where p: "p = x0 # x1 # x2 # x3 # x4 # x5 # x6 # x7 # r"
    by (rule split8)
  obtain c where s: "str16 \<lparr>b = p, off = 8\<rparr> = (Inl ErrUnexpectedEOF, c)"
    using assms(2) by (cases "str16 \<lparr>b = p, off = 8\<rparr>") simp
  from str16_at8_Inl [OF assms(1) s] have "c\<lparr>off := 8\<rparr> = \<lparr>b = p, off = 8\<rparr>"
    by (cases c) simp
  moreover obtain c' where "flexible \<lparr>b = p, off = 8\<rparr> = (Inl ErrUnexpectedEOF, c')"
    using assms(3) by (cases "flexible \<lparr>b = p, off = 8\<rparr>") simp
  ultimately show ?thesis
    using s unfolding p parseHeader_prefix by simp
qed

lemma handleConn_Return:
  "handleFrame s = (Return, s') \<Longrightarrow> handleConn s = (Return, s'\<lparr>closed := True\<rparr>)"
  by (simp add: handleConn_def)

text \<open>
  C7. When the four length bytes of a frame decode, big-endian and signed, to a negative
  value or to one above 10 MiB, the handler returns at once: it has read the four length
  bytes and nothing else, it has allocated no payload buffer and written nothing. The
  connection is closed by the deferred call.
\<close>

theorem C7_frame_length_rejected:
  assumes "length lenBuf = 4" and "Uint32 lenBuf = Some frameSize"
    and "sint frameSize < 0 \<or> 10 * 1024 * 1024 < sint frameSize"
  shows "handleFrame (s\<lparr>rd := lenBuf @ rest\<rparr>) = (Return, s\<lparr>rd := rest\<rparr>)
     \<and> handleConn (s\<lparr>rd := lenBuf @ rest\<rparr>) = (Return, s\<lparr>rd := rest, closed := True\<rparr>)"
  using handleFrame_rejects [OF assms] by (simp add: handleConn_Return)

text \<open>C7 on the lengths -1 and 10 MiB + 1.\<close>

theorem C7_frame_length_rejected_witness:
  "(length [0xFF, 0xFF, 0xFF, 0xFF :: byte] = 4 \<and> Uint32 [0xFF, 0xFF, 0xFF, 0xFF] = Some (- 1)
      \<and> sint (- 1 :: int32) < 0
      \<and> handleConn \<lparr>rd = [0xFF, 0xFF, 0xFF, 0xFF, 0x00, 0x12, 0x00, 0x04], wr = [], made = [],
            broken = False, closed = False\<rparr>
          = (Return, \<lparr>rd = [0x00, 0x12, 0x00, 0x04], wr = [], made = [], broken = False, closed = True\<rparr>))
   \<and> (length [0x00, 0xA0, 0x00, 0x01 :: byte] = 4 \<and> Uint32 [0x00, 0xA0, 0x00, 0x01] = Some 10485761
      \<and> 10 * 1024 * 1024 < sint (10485761 :: int32)
      \<and> handleConn \<lparr>rd = [0x00, 0xA0, 0x00, 0x01, 0x00, 0x12, 0x00, 0x04], wr = [], made = [],
            broken = False, closed = False\<rparr>
          = (Return, \<lparr>rd = [0x00, 0x12, 0x00, 0x04], wr = [], made = [], broken = False, closed = True\<rparr>))"
  (is "(?a1 \<and> ?b1 \<and> ?c1 \<and> ?d1) \<and> (?a2 \<and> ?b2 \<and> ?c2 \<and> ?d2)")
proof -
  have h1: ?a1 ?b1 ?c1 and h2: ?a2 ?b2 ?c2
    by simp_all
  have "sint (- 1 :: int32) < 0 \<or> 10 * 1024 * 1024 < sint (- 1 :: int32)"
    using h1(3) by simp
  from C7_frame_length_rejected [OF h1(1,2) this,
      where s = "\<lparr>rd = [], wr = [], made = [], broken = False, closed = False\<rparr>"
        and rest = "[0x00, 0x12, 0x00, 0x04]"]
  have ?d1
    by simp
  moreover
  have "sint (10485761 :: int32) < 0 \<or> 10 * 1024 * 1024 < sint (10485761 :: int32)"
    using h2(3) by simp
  from C7_frame_length_rejected [OF h2(1,2) this,
      where s = "\<lparr>rd = [], wr = [], made = [], broken = False, closed = False\<rparr>"
        and rest = "[0x00, 0x12, 0x00, 0x04]"]
  have ?d2
    by simp
  ultimately show ?thesis
    using h1 h2 by simp
qed

text \<open>
  C6. For a frame of acceptable length: if its payload is shorter than the 8 fixed bytes,
  or if both the legacy read and the flexible read of the client id at position 8 fail,
  then header decoding as a whole fails. When header decoding fails, the handler returns
  after reading that frame and the connection is closed. Whenever header decoding does
  not produce a header, nothing is written for the frame: what has been written to the
  connection is what had been written before it.
\<close>

theorem C6_malformed_header:
  assumes "length lenBuf = 4" and "Uint32 lenBuf = Some frameSize"
    and "0 \<le> sint frameSize" and "sint frameSize \<le> 10 * 1024 * 1024"
    and "int (length p) = sint frameSize"
  shows "(length p < 8
          \<or> (fst (str16 \<lparr>b = p, off = 8\<rparr>) = Inl ErrUnexpectedEOF
             \<and> fst (flexible \<lparr>b = p, off = 8\<rparr>) = Inl ErrUnexpectedEOF) \<longrightarrow>
          fst (parseHeader \<lparr>b = p, off = 0\<rparr>) = Inl ErrUnexpectedEOF)
     \<and> (fst (parseHeader \<lparr>b = p, off = 0\<rparr>) = Inl ErrUnexpectedEOF \<longrightarrow>
          handleFrame (s\<lparr>rd := lenBuf @ p @ rest\<rparr>)
            = (Return, s\<lparr>rd := rest, made := made s @ [length p]\<rparr>)
          \<and> handleConn (s\<lparr>rd := lenBuf @ p @ rest\<rparr>)
            = (Return, s\<lparr>rd := rest, made := made s @ [length p], closed := True\<rparr>))
     \<and> (\<forall>e. fst (parseHeader \<lparr>b = p, off = 0\<rparr>) = Inl e \<longrightarrow>
          wr (snd (handleConn (s\<lparr>rd := lenBuf @ p @ rest\<rparr>))) = wr s)"
proof (intro conjI allI impI)
  assume "length p < 8
      \<or> (fst (str16 \<lparr>b = p, off = 8\<rparr>) = Inl ErrUnexpectedEOF
         \<and> fst (flexible \<lparr>b = p, off = 8\<rparr>) = Inl ErrUnexpectedEOF)"
  then show "fst (parseHeader \<lparr>b = p, off = 0\<rparr>) = Inl ErrUnexpectedEOF"
  proof (cases "length p < 8")
    case True
    then show ?thesis
      by (rule parseHeader_short)
  next
    case False
    assume "length p < 8
      \<or> (fst (str16 \<lparr>b = p, off = 8\<rparr>) = Inl ErrUnexpectedEOF
         \<and> fst (flexible \<lparr>b = p, off = 8\<rparr>) = Inl ErrUnexpectedEOF)"
    with False show ?thesis
      by (intro parseHeader_both_fail) simp_all
  qed
next
  assume "fst (parseHeader \<lparr>b = p, off = 0\<rparr>) = Inl ErrUnexpectedEOF"
  then obtain c where "parseHeader \<lparr>b = p, off = 0\<rparr> = (Inl ErrUnexpectedEOF, c)"
    by (cases "parseHeader \<lparr>b = p, off = 0\<rparr>") simp
  then show h: "handleFrame (s\<lparr>rd := lenBuf @ p @ rest\<rparr>)
         = (Return, s\<lparr>rd := rest, made := made s @ [length p]\<rparr>)"
    by (simp add: handleFrame_payload [OF assms(1-5)])
  then show "handleConn (s\<lparr>rd := lenBuf @ p @ rest\<rparr>)
         = (Return, s\<lparr>rd := rest, made := made s @ [length p], closed := True\<rparr>)"
    by (simp add: handleConn_Return)
next
  fix e
  assume "fst (parseHeader \<lparr>b = p, off = 0\<rparr>) = Inl e"
  then obtain c where "parseHeader \<lparr>b = p, off = 0\<rparr> = (Inl e, c)"
    by (cases "parseHeader \<lparr>b = p, off = 0\<rparr>") simp
  then have "handleFrame (s\<lparr>rd := lenBuf @ p @ rest\<rparr>)
         = ((case e of ErrUnexpectedEOF \<Rightarrow> Return | PanicOutOfRange \<Rightarrow> Crash),
            s\<lparr>rd := rest, made := made s @ [length p]\<rparr>)"
    by (cases e) (simp_all add: handleFrame_payload [OF assms(1-5)])
  then show "wr (snd (handleConn (s\<lparr>rd := lenBuf @ p @ rest\<rparr>))) = wr s"
    by (cases e) (simp_all add: handleConn_def)
qed

text \<open>C6 on a payload of 4 bytes, and on one whose ninth and last byte is 0x80.\<close>

theorem C6_malformed_header_witness:
  "(length [0x00, 0x00, 0x00, 0x04 :: byte] = 4 \<and> Uint32 [0x00, 0x00, 0x00, 0x04] = Some 4
      \<and> 0 \<le> sint (4 :: int32) \<and> sint (4 :: int32) \<le> 10 * 1024 * 1024
      \<and> int (length [0x00, 0x12, 0x00, 0x04 :: byte]) = sint (4 :: int32)
      \<and> length [0x00, 0x12, 0x00, 0x04 :: byte] < 8
      \<and> handleConn \<lparr>rd = [0x00, 0x00, 0x00, 0x04, 0x00, 0x12, 0x00, 0x04], wr = [], made = [],
            broken = False, closed = False\<rparr>
          = (Return, \<lparr>rd = [], wr = [], made = [4], broken = False, closed = True\<rparr>))
   \<and> (length [0x00, 0x00, 0x00, 0x09 :: byte] = 4 \<and> Uint32 [0x00, 0x00, 0x00, 0x09] = Some 9
      \<and> 0 \<le> sint (9 :: int32) \<and> sint (9 :: int32) \<le> 10 * 1024 * 1024
      \<and> int (length [0x00, 0x12, 0x00, 0x04, 0x00, 0x00, 0x00, 0x07, 0x80 :: byte]) = sint (9 :: int32)
      \<and> fst (str16 \<lparr>b = [0x00, 0x12, 0x00, 0x04, 0x00, 0x00, 0x00, 0x07, 0x80], off = 8\<rparr>)
          = Inl ErrUnexpectedEOF
      \<and> fst (flexible \<lparr>b = [0x00, 0x12, 0x00, 0x04, 0x00, 0x00, 0x00, 0x07, 0x80], off = 8\<rparr>)
          = Inl ErrUnexpectedEOF
      \<and> handleConn \<lparr>rd = [0x00, 0x00, 0x00, 0x09, 0x00, 0x12, 0x00, 0x04, 0x00, 0x00, 0x00, 0x07, 0x80],
            wr = [], made = [], broken = False, closed = False\<rparr>
          = (Return, \<lparr>rd = [], wr = [], made = [9], broken = False, closed = True\<rparr>))"
  (is "(?a1 \<and> ?b1 \<and> ?c1 \<and> ?d1 \<and> ?e1 \<and> ?f1 \<and> ?g1)
     \<and> (?a2 \<and> ?b2 \<and> ?c2 \<and> ?d2 \<and> ?e2 \<and> ?f2 \<and> ?f2' \<and> ?g2)")
proof -
  have h1: ?a1 ?b1 ?c1 ?d1 ?e1 and f1: ?f1 and h2: ?a2 ?b2 ?c2 ?d2 ?e2
    by simp_all
  have f2: ?f2 ?f2'
    by code_simp+
  from C6_malformed_header [OF h1,
      where s = "\<lparr>rd = [], wr = [], made = [], broken = False, closed = False\<rparr>" and rest = "[]"]
    f1
  have ?g1
    by simp
  moreover
  from C6_malformed_header [OF h2,
      where s = "\<lparr>rd = [], wr = [], made = [], broken = False, closed = False\<rparr>" and rest = "[]"]
    f2
  have ?g2
    by simp
  ultimately show ?thesis
    using h1 f1 h2 f2 by simp
qed

section \<open>The position of the cursor\<close>

lemma Uint16_Some_len: "Uint16 s = Some v \<Longrightarrow> 2 \<le> length s"
  using Uint16_None_iff [of s] by simp

lemma Uint32_Some_len: "Uint32 s = Some v \<Longrightarrow> 4 \<le> length s"
  using Uint32_None_iff [of s] by simp

lemma i16_success:
  assumes "i16 c = (Inr v, c')" and "int (length (b c)) < 2 ^ 63"
  shows "c' = c\<lparr>off := off c + 2\<rparr> \<and> 0 \<le> off c \<and> off c + 2 \<le> int (length (b c))"
proof -
  from assms(1) obtain s where s: "slice_from (b c) (off c) = Some s" and u: "Uint16 s = Some v"
    and c': "c' = c\<lparr>off := go_int (off c + 2)\<rparr>"
    by (auto simp: i16_def split: option.splits)
  from s have r: "0 \<le> off c" "off c \<le> int (length (b c))" and d: "s = drop (nat (off c)) (b c)"
    by (auto simp: slice_from_def split: if_splits)
  from Uint16_Some_len [OF u] d r have le: "off c + 2 \<le> int (length (b c))"
    by simp
  with r assms(2) have "go_int (off c + 2) = off c + 2"
    by (intro go_int_id) simp_all
  with c' r le show ?thesis
    by simp
qed

lemma i32_success:
  assumes "i32 c = (Inr v, c')" and "int (length (b c)) < 2 ^ 63"
  shows "c' = c\<lparr>off := off c + 4\<rparr> \<and> 0 \<le> off c \<and> off c + 4 \<le> int (length (b c))"
proof -
  from assms(1) obtain s where s: "slice_from (b c) (off c) = Some s" and u: "Uint32 s = Some v"
    and c': "c' = c\<lparr>off := go_int (off c + 4)\<rparr>"
    by (auto simp: i32_def split: option.splits)
  from s have r: "0 \<le> off c" "off c \<le> int (length (b c))" and d: "s = drop (nat (off c)) (b c)"
    by (auto simp: slice_from_def split: if_splits)
  from Uint32_Some_len [OF u] d r have le: "off c + 4 \<le> int (length (b c))"
    by simp
  with r assms(2) have "go_int (off c + 4) = off c + 4"
    by (intro go_int_id) simp_all
  with c' r le show ?thesis
    by simp
qed

text \<open>A wrapped sum that is not negative and not below its first summand did not wrap.\<close>

lemma go_int_no_wrap:
  assumes "0 \<le> x" and "x < 2 ^ 63" and "- (2 ^ 63) \<le> n" and "n < 2 ^ 63"
    and "x \<le> go_int (x + n)"
  shows "go_int (x + n) = x + n \<and> 0 \<le> n"
proof (cases "x + n < 2 ^ 63")
  case True
  with assms(1,3) have "go_int (x + n) = x + n"
    by (intro go_int_id) simp_all
  with assms(5) show ?thesis
    by simp
next
  case False
  have "word_of_int (x + n) = (word_of_int (x + n - 2 ^ 64) :: 64 word)"
    by (simp add: word_of_int_eq_iff take_bit_eq_mod)
  then have "go_int (x + n) = go_int (x + n - 2 ^ 64)"
    by (simp only: go_int_def)
  also have "\<dots> = x + n - 2 ^ 64"
    using False assms(2,4) by (intro go_int_id) simp_all
  finally have "go_int (x + n) < 0"
    using assms(2,4) by simp
  with assms(1,5) show ?thesis
    by simp
qed

lemma sint64_bounds: "- (2 ^ 63) \<le> sint (w :: 64 word)" "sint (w :: 64 word) < 2 ^ 63"
  using sint_ge [of w] sint_lt [of w] by simp_all

lemma str16_success:
  assumes "str16 c = (Inr s, c')" and "int (length (b c)) < 2 ^ 63"
  shows "c' = c\<lparr>off := off c + 2 + int (length s)\<rparr> \<and> 0 \<le> off c
     \<and> off c + 2 + int (length s) \<le> int (length (b c))"
proof -
  from assms(1) obtain l c1 where i: "i16 c = (Inr l, c1)"
    by (auto simp: str16_def split: prod.splits sum.splits)
  from i16_success [OF i assms(2)]
  have c1: "c1 = c\<lparr>off := off c + 2\<rparr>" and r: "0 \<le> off c" "off c + 2 \<le> int (length (b c))"
    by simp_all
  show ?thesis
  proof (cases "l <s 0")
    case True
    with assms(1) i c1 r show ?thesis
      by (simp add: str16_def)
  next
    case False
    then have nn: "0 \<le> sint l"
      by (simp add: word_sless_alt)
    from assms(1) i False c1
    have sl: "slice_between (b c) (off c + 2) (go_int (off c + 2 + sint l)) = Some s"
      and c': "c' = c\<lparr>off := go_int (off c + 2 + sint l)\<rparr>"
      by (auto simp: str16_def split: option.splits)
    from sl have o: "off c + 2 \<le> go_int (off c + 2 + sint l)"
      "go_int (off c + 2 + sint l) \<le> int (length (b c))"
      and s: "s = take (nat (go_int (off c + 2 + sint l) - (off c + 2))) (drop (nat (off c + 2)) (b c))"
      by (auto simp: slice_between_def split: if_splits)
    from sint16_bounds [of l] have "- (2 ^ 63) \<le> sint l" "sint l < 2 ^ 63"
      by simp_all
    from go_int_no_wrap [OF _ _ this o(1)] r assms(2)
    have g: "go_int (off c + 2 + sint l) = off c + 2 + sint l"
      by simp
    from s g nn o r have "int (length s) = sint l"
      by simp
    with c' g o r show ?thesis
      by simp
  qed
qed

lemma Uvarint_loop_bound:
  "Uvarint_loop ys i x s = (v, n) \<Longrightarrow> 0 < n \<Longrightarrow> i \<le> 10 \<Longrightarrow>
     int i < n \<and> n \<le> int i + int (length ys) \<and> n \<le> 10"
proof (induction ys arbitrary: i x s)
  case Nil
  then show ?case
    by simp
next
  case (Cons y ys)
  show ?case
  proof (cases "i = 10 \<or> y < 0x80")
    case True
    with Cons.prems show ?thesis
      by (auto split: if_splits)
  next
    case False
    with Cons.prems
    have "Uvarint_loop ys (i + 1) (x OR push_bit s (ucast (y AND 0x7f))) (s + 7) = (v, n)"
      and "i + 1 \<le> 10"
      by simp_all
    from Cons.IH [OF this(1) Cons.prems(2) this(2)] show ?thesis
      by simp
  qed
qed

lemma uvarint_success:
  assumes "uvarint c = (Inr v, c')" and "int (length (b c)) < 2 ^ 63"
  shows "\<exists>n. c' = c\<lparr>off := off c + n\<rparr> \<and> Uvarint (drop (nat (off c)) (b c)) = (v, n) \<and> 0 < n
     \<and> 0 \<le> off c \<and> off c + n \<le> int (length (b c))"
proof -
  from assms(1) obtain s n where s: "slice_from (b c) (off c) = Some s" and u: "Uvarint s = (v, n)"
    and n: "0 < n" and c': "c' = c\<lparr>off := go_int (off c + n)\<rparr>"
    by (auto simp: uvarint_def split: option.splits prod.splits if_splits)
  from s have r: "0 \<le> off c" "off c \<le> int (length (b c))" and d: "s = drop (nat (off c)) (b c)"
    by (auto simp: slice_from_def split: if_splits)
  from Uvarint_loop_bound [OF u [unfolded Uvarint_def] n] d r
  have le: "off c + n \<le> int (length (b c))"
    by simp
  with r n assms(2) have "go_int (off c + n) = off c + n"
    by (intro go_int_id) simp_all
  with c' r le n u d show ?thesis
    by auto
qed

lemma compactNullableString_success:
  assumes "compactNullableString c = (Inr s, c')" and "int (length (b c)) < 2 ^ 63"
  shows "\<exists>n. c' = c\<lparr>off := off c + n + int (length s)\<rparr> \<and> 0 < n \<and> 0 \<le> off c
     \<and> off c + n + int (length s) \<le> int (length (b c))"
proof -
  from assms(1) obtain n1 c1 where u: "uvarint c = (Inr n1, c1)"
    by (auto simp: compactNullableString_def split: prod.splits sum.splits)
  from uvarint_success [OF u assms(2)] obtain n
    where c1: "c1 = c\<lparr>off := off c + n\<rparr>" and n: "0 < n" and r: "0 \<le> off c"
      "off c + n \<le> int (length (b c))"
    by blast
  show ?thesis
  proof (cases "n1 = 0")
    case True
    with assms(1) u c1 n r show ?thesis
      by (auto simp: compactNullableString_def)
  next
    case False
    let ?m = "sint (n1 - 1)"
    from assms(1) u False c1
    have sl: "slice_between (b c) (off c + n) (go_int (off c + n + ?m)) = Some s"
      and c': "c' = c\<lparr>off := go_int (off c + n + ?m)\<rparr>"
      by (auto simp: compactNullableString_def Let_def split: option.splits)
    from sl have o: "off c + n \<le> go_int (off c + n + ?m)"
      "go_int (off c + n + ?m) \<le> int (length (b c))"
      and s: "s = take (nat (go_int (off c + n + ?m) - (off c + n))) (drop (nat (off c + n)) (b c))"
      by (auto simp: slice_between_def split: if_splits)
    from go_int_no_wrap [OF _ _ sint64_bounds o(1)] r n assms(2)
    have g: "go_int (off c + n + ?m) = off c + n + ?m" and m: "0 \<le> ?m"
      by simp_all
    from s g m o r n have "int (length s) = ?m"
      by simp
    with c' g o n r show ?thesis
      by auto
  qed
qed

text \<open>
  C8 holds of five of the six operations (the lemmas above, for a buffer shorter than
  \<open>2 ^ 63\<close> bytes): a successful \<open>i16\<close>, \<open>i32\<close>, \<open>str16\<close>, \<open>uvarint\<close> or
  \<open>compactNullableString\<close> moves the position forward by the bytes it consumed and leaves
  it inside the buffer. It does not hold of \<open>skipTagged\<close>. A size of \<open>2 ^ 63\<close> or more
  becomes a negative \<open>int\<close>, \<open>need\<close> accepts it, and the position moves backwards by it:
  on the 12 bytes below (one field, tag 0, size \<open>2 ^ 64 - 13\<close>) the call returns without
  an error at position -1. The same happens inside \<open>parseHeader\<close> on a payload in the
  flexible encoding with one tagged field of size \<open>2 ^ 64 - 22\<close>: the header is accepted
  and the cursor is left at -1.
\<close>

theorem C8_skipTagged_leaves_buffer:
  "skipTagged
     \<lparr>b = [0x01, 0x00, 0xF3, 0xFF, 0xFF, 0xFF, 0xFF, 0xFF, 0xFF, 0xFF, 0xFF, 0x01], off = 0\<rparr>
   = (Inr (),
      \<lparr>b = [0x01, 0x00, 0xF3, 0xFF, 0xFF, 0xFF, 0xFF, 0xFF, 0xFF, 0xFF, 0xFF, 0x01], off = - 1\<rparr>)
   \<and> parseHeader
     \<lparr>b = [0x00, 0x12, 0x00, 0x04, 0x00, 0x00, 0x00, 0x07, 0x01, 0x01, 0x00,
            0xEA, 0xFF, 0xFF, 0xFF, 0xFF, 0xFF, 0xFF, 0xFF, 0xFF, 0x01], off = 0\<rparr>
   = (Inr (18, 4, 7, []),
      \<lparr>b = [0x00, 0x12, 0x00, 0x04, 0x00, 0x00, 0x00, 0x07, 0x01, 0x01, 0x00,
            0xEA, 0xFF, 0xFF, 0xFF, 0xFF, 0xFF, 0xFF, 0xFF, 0xFF, 0x01], off = - 1\<rparr>)"
  by code_simp

text \<open>
  C9 does not hold either. \<open>compactNullableString\<close> on the varint \<open>2 ^ 64 - 1\<close> takes the
  length \<open>int(n1 - 1) = -2\<close>, which \<open>need\<close> accepts, and the slice expression
  \<open>c.b[10:8]\<close> panics. \<open>skipTagged\<close> on two fields, the first of size \<open>2 ^ 64 - 13\<close>,
  moves the position to -1 and panics in the slice expression \<open>c.b[-1:]\<close> when it reads
  the tag of the second field. The second case is reachable from the network: on the
  21-byte frame below the legacy read fails, the flexible path reads an empty client id
  and two tagged fields, and the handler panics without a response.
\<close>

theorem C9_runtime_fault:
  "compactNullableString
     \<lparr>b = [0xFF, 0xFF, 0xFF, 0xFF, 0xFF, 0xFF, 0xFF, 0xFF, 0xFF, 0x01], off = 0\<rparr>
   = (Inl PanicOutOfRange,
      \<lparr>b = [0xFF, 0xFF, 0xFF, 0xFF, 0xFF, 0xFF, 0xFF, 0xFF, 0xFF, 0x01], off = 10\<rparr>)
   \<and> skipTagged
     \<lparr>b = [0x02, 0x00, 0xF3, 0xFF, 0xFF, 0xFF, 0xFF, 0xFF, 0xFF, 0xFF, 0xFF, 0x01], off = 0\<rparr>
   = (Inl PanicOutOfRange,
      \<lparr>b = [0x02, 0x00, 0xF3, 0xFF, 0xFF, 0xFF, 0xFF, 0xFF, 0xFF, 0xFF, 0xFF, 0x01], off = - 1\<rparr>)
   \<and> handleConn
     \<lparr>rd = [0x00, 0x00, 0x00, 0x15,
             0x00, 0x12, 0x00, 0x04, 0x00, 0x00, 0x00, 0x07, 0x01, 0x02, 0x00,
             0xEA, 0xFF, 0xFF, 0xFF, 0xFF, 0xFF, 0xFF, 0xFF, 0xFF, 0x01],
      wr = [], made = [], broken = False, closed = False\<rparr>
   = (Crash, \<lparr>rd = [], wr = [], made = [21], broken = False, closed = True\<rparr>)"
  by code_simp

section \<open>The example exchange\<close>

text \<open>
  C1, as stated: the handler answers the example request with the 24 bytes printed in the
  specification. It does not: the frame it writes is one byte shorter.
\<close>

theorem C1_counterexample:
  "wr (snd (handleConn
       \<lparr>rd = [0x00, 0x00, 0x00, 0x0E,
               0x00, 0x12, 0x00, 0x04, 0x00, 0x00, 0x00, 0x07, 0x00, 0x04, 0x74, 0x65, 0x73, 0x74],
        wr = [], made = [], broken = False, closed = False\<rparr>))
   \<noteq> [0x00, 0x00, 0x00, 0x13, 0x00, 0x00, 0x00, 0x07, 0x00, 0x00, 0x02, 0x00, 0x12, 0x00,
       0x00, 0x00, 0x04, 0x00, 0x00, 0x00, 0x00, 0x00, 0x00, 0x00]"
  by code_simp

text \<open>
  C1, amended. On a connection that carries the one request frame with the 14-byte payload
  00 12 00 04 00 00 00 07 00 04 74 65 73 74 and is then closed by the peer, the handler
  writes exactly the 23 bytes 00 00 00 13 00 00 00 07 00 00 02 00 12 00 00 00 04 00 00 00
  00 00 00: the length 19, the correlation id 7 and the 15-byte body, whose last byte is
  the one empty tag buffer of the response. It allocates one payload buffer of 14 bytes
  and returns at the end of the stream.
\<close>

theorem C1_example_response:
  "handleConn
     \<lparr>rd = [0x00, 0x00, 0x00, 0x0E,
             0x00, 0x12, 0x00, 0x04, 0x00, 0x00, 0x00, 0x07, 0x00, 0x04, 0x74, 0x65, 0x73, 0x74],
      wr = [], made = [], broken = False, closed = False\<rparr>
   = (Return,
      \<lparr>rd = [],
       wr = [0x00, 0x00, 0x00, 0x13, 0x00, 0x00, 0x00, 0x07, 0x00, 0x00, 0x02, 0x00, 0x12, 0x00,
             0x00, 0x00, 0x04, 0x00, 0x00, 0x00, 0x00, 0x00, 0x00],
       made = [14], broken = False, closed = True\<rparr>)"
  by code_simp

end
